theory Spec2Isabelle
  imports Main "HOL-Library.Char_ord" "HOL-Library.List_Lexorder"
begin

section \<open>Values, exceptions and the logger\<close>

text \<open>
  The schema catalog is the result of \<^verbatim>\<open>json.load\<close>: a dict from dataset names to
  lists of column descriptors, each descriptor a dict from field names to values.
  A Python dict is an association list in insertion order (its keys are distinct);
  \<^verbatim>\<open>d[k]\<close> is \<open>getitem\<close>, \<^verbatim>\<open>d.keys()\<close> is \<open>map fst\<close>.
  Field values are integers or strings, the two kinds the catalog uses.
\<close>

datatype jval = is_JInt: JInt (the_int: int) | is_JStr: JStr (the_str: string)

type_synonym descriptor = "(string \<times> jval) list"
type_synonym catalog = "(string \<times> descriptor list) list"

text \<open>
  An exception is its class, its text and its cause. For \<^verbatim>\<open>KeyError\<close> the text is the
  missing key. For \<^verbatim>\<open>raise X(f"prefix: {e}") from e\<close> the text is the literal prefix
  and the cause is \<open>e\<close> (whose own text the f-string appends). \<open>Other\<close> stands for any
  class that none of the \<^verbatim>\<open>except\<close> clauses of the program names.
\<close>

datatype exn_class =
  KeyError | TypeError | ValueError | FileNotFoundError | ParserError
  | DatabaseError | JSONDecodeError | Exception | Other string

datatype exn = Exn (exn_class: exn_class) (exn_text: string) (exn_cause: "exn option")

datatype level = DEBUG | INFO | ERROR | CRITICAL

datatype selector = PyNone | PyStr string | PyList "string list"

text \<open>One constructor for each logging call of the program, with the values it formats.\<close>

datatype message =
  Schema_loaded string
  | Schema_unparsable exn
  | Schema_missing string
  | Loading_all "string list"
  | Loading_specified selector
  | Searching_files string string
  | No_files_found string string
  | Starting_file string string
  | Processing_chunk nat nat string string
  | Chunk_processed nat string
  | Chunk_failed nat string string exn
  | Finished_dataset string
  | Reading_csv string "jval list"
  | File_not_found string exn
  | Unable_to_parse string exn
  | Unhandled_read string exn
  | Db_load_error string exn
  | Malformed_schema string string exn

type_synonym log_record = "level \<times> message"

record dataframe =
  columns :: "jval list"
  rows :: "string list list"

type_synonym db_row = "(jval \<times> string) list"

text \<open>
  The mutable world of a run: the database tables (a table that does not exist yet has no
  rows), the records the logger has emitted, and the number of calls made to the database
  so far.
\<close>

record state =
  tables :: "string \<Rightarrow> db_row list"
  logged :: "log_record list"
  db_calls :: nat

text \<open>
  What the program reads from outside: the process environment, the outcome of opening
  and parsing the catalog file at a path, the directory listing for a glob pattern, the
  outcome of opening a source file (its rows, each already split into fields, or the
  exception that opening raises), and for the n-th call to the database whether it fails.
\<close>

record world =
  environ :: "string \<Rightarrow> string option"
  schema_file :: "string \<Rightarrow> exn + catalog"
  glob :: "string \<Rightarrow> string list"
  pd_open :: "string \<Rightarrow> jval list \<Rightarrow> exn + string list list"
  db_outcome :: "nat \<Rightarrow> exn option"

text \<open>\<^verbatim>\<open>logger.setLevel(logging.INFO)\<close>: debug records are dropped.\<close>

definition logger :: "level \<Rightarrow> message \<Rightarrow> state \<Rightarrow> state" where
  "logger lvl m st = (if lvl = DEBUG then st else st\<lparr>logged := logged st @ [(lvl, m)]\<rparr>)"

definition getitem :: "(string \<times> 'v) list \<Rightarrow> string \<Rightarrow> exn + 'v" where
  "getitem d k = (case map_of d k of None \<Rightarrow> Inl (Exn KeyError k None) | Some v \<Rightarrow> Inr v)"

text \<open>A list comprehension whose element expression may raise: the first exception wins.\<close>

fun map_exn :: "('a \<Rightarrow> exn + 'b) \<Rightarrow> 'a list \<Rightarrow> exn + 'b list" where
  "map_exn f [] = Inr []"
| "map_exn f (x # xs) =
     (case f x of
        Inl e \<Rightarrow> Inl e
      | Inr y \<Rightarrow> (case map_exn f xs of Inl e \<Rightarrow> Inl e | Inr ys \<Rightarrow> Inr (y # ys)))"

section \<open>Column Resolver\<close>

text \<open>
  \<^verbatim>\<open>sorted(xs, key=f)\<close>: the key of every element is computed first, then the elements
  are sorted stably by key. Integers compare with integers and strings with strings;
  comparing an integer with a string raises \<^verbatim>\<open>TypeError\<close>.
\<close>

definition sorted_by_key :: "('a \<Rightarrow> exn + jval) \<Rightarrow> 'a list \<Rightarrow> exn + 'a list" where
  "sorted_by_key key xs =
     (case map_exn key xs of
        Inl e \<Rightarrow> Inl e
      | Inr ks \<Rightarrow>
          if list_all is_JInt ks then Inr (map snd (sort_key fst (zip (map the_int ks) xs)))
          else if list_all is_JStr ks then Inr (map snd (sort_key fst (zip (map the_str ks) xs)))
          else Inl (Exn TypeError ''not supported between instances'' None))"

text \<open>
  \<^verbatim>\<open>get_column_names\<close>: the result and the records sent to the logger. Only
  \<^verbatim>\<open>KeyError\<close> is caught; it is logged and raised again unchanged.
\<close>

definition get_column_names ::
  "catalog \<Rightarrow> string \<Rightarrow> string \<Rightarrow> (exn + jval list) \<times> log_record list" where
  "get_column_names schemas ds_name sorting_key =
     (let body =
        (case getitem schemas ds_name of
           Inl e \<Rightarrow> Inl e
         | Inr descriptors \<Rightarrow>
             (case sorted_by_key (\<lambda>x. getitem x sorting_key) descriptors of
                Inl e \<Rightarrow> Inl e
              | Inr sorted_schema \<Rightarrow>
                  map_exn (\<lambda>col_detail. getitem col_detail ''column_name'') sorted_schema))
      in case body of
           Inl e \<Rightarrow>
             if exn_class e = KeyError
             then (Inl e, [(ERROR, Malformed_schema ds_name sorting_key e)])
             else (Inl e, [])
         | Inr names \<Rightarrow> (Inr names, []))"

section \<open>Chunked File Reader\<close>

text \<open>
  A generator is the sequence of what it does when it is driven to the end: it yields a
  value, sends a record to the logger, or raises (and is finished).
\<close>

datatype 'a event = Yield 'a | Emit log_record | Raise exn

text \<open>
  Modelled from the spec: how the chunked reader of \<^verbatim>\<open>pandas\<close>, which is not part of the
  repository, cuts the rows of a file: consecutive chunks of \<open>n\<close> rows, the last one
  holding what is left.
\<close>

function chunks_of :: "nat \<Rightarrow> 'a list \<Rightarrow> 'a list list" where
  "chunks_of n xs = (if n = 0 \<or> xs = [] then [] else take n xs # chunks_of n (drop n xs))"
  by pat_completeness auto
termination
  by (relation "measure (\<lambda>(n, xs). length xs)") auto

text \<open>
  Modelled from the spec: how the reader of \<^verbatim>\<open>pandas\<close> turns the lines of one chunk into a
  table: the given column names are the headers and the fields are kept as text; a line
  whose number of fields differs from the number of names is a parse error.
\<close>

definition parse_chunk :: "jval list \<Rightarrow> string list list \<Rightarrow> exn + dataframe" where
  "parse_chunk names lines =
     (if list_all (\<lambda>fields. length fields = length names) lines
      then Inr \<lparr>columns = names, rows = lines\<rparr>
      else Inl (Exn ParserError ''Error tokenizing data'' None))"

text \<open>
  Modelled from the spec: \<^verbatim>\<open>pandas.read_csv(path, names=..., chunksize=...)\<close>, the
  library's chunked reader, which is not part of the repository. A chunk size below 1 is
  refused; the file is opened (the world says with what outcome); the reader then
  produces the rows in consecutive chunks of at most \<open>chunksize\<close> rows, each parsed
  when it is requested, with the given column names as headers and the fields as raw
  text; a row whose number of fields differs from the number of names is a parse error.
\<close>

definition pd_read_csv ::
  "world \<Rightarrow> string \<Rightarrow> jval list \<Rightarrow> int \<Rightarrow> exn + (exn + dataframe) list" where
  "pd_read_csv w path names chunksize =
     (if chunksize < 1 then Inl (Exn ValueError ''chunksize must be an integer >=1'' None)
      else case pd_open w path names of
             Inl e \<Rightarrow> Inl e
           | Inr lines \<Rightarrow> Inr (map (parse_chunk names) (chunks_of (nat chunksize) lines)))"

text \<open>The three \<^verbatim>\<open>except\<close> clauses of \<^verbatim>\<open>read_csv\<close>, in their order.\<close>

definition read_csv_except :: "string \<Rightarrow> exn \<Rightarrow> 'a event list" where
  "read_csv_except csv_path e =
     (if exn_class e = FileNotFoundError then
        [Emit (ERROR, File_not_found csv_path e),
         Raise (Exn FileNotFoundError (''File not found: '' @ csv_path) (Some e))]
      else if exn_class e = ParserError then
        [Emit (ERROR, Unable_to_parse csv_path e),
         Raise (Exn ParserError ''Unable to parse data to dataframe: '' (Some e))]
      else
        [Emit (CRITICAL, Unhandled_read csv_path e),
         Raise (Exn Exception ''An unhandled exception occurred while reading data: '' (Some e))])"

text \<open>\<^verbatim>\<open>for idx, df in enumerate(df_reader): yield idx, df\<close>, inside the \<^verbatim>\<open>try\<close>.\<close>

fun yield_enumerated :: "string \<Rightarrow> nat \<Rightarrow> (exn + dataframe) list \<Rightarrow> (nat \<times> dataframe) event list" where
  "yield_enumerated csv_path idx [] = []"
| "yield_enumerated csv_path idx (Inr df # df_reader) =
     Yield (idx, df) # yield_enumerated csv_path (Suc idx) df_reader"
| "yield_enumerated csv_path idx (Inl e # df_reader) = read_csv_except csv_path e"

definition read_csv ::
  "world \<Rightarrow> string \<Rightarrow> catalog \<Rightarrow> string \<Rightarrow> int \<Rightarrow> (nat \<times> dataframe) event list" where
  "read_csv w csv_path schema ds_name chunksize =
     (case get_column_names schema ds_name ''column_position'' of
        (Inl e, records) \<Rightarrow> map Emit records @ read_csv_except csv_path e
      | (Inr col_name, records) \<Rightarrow>
          map Emit records @ Emit (DEBUG, Reading_csv csv_path col_name) #
          (case pd_read_csv w csv_path col_name chunksize of
             Inl e \<Rightarrow> read_csv_except csv_path e
           | Inr df_reader \<Rightarrow> yield_enumerated csv_path 0 df_reader))"

section \<open>Table Writer\<close>

definition to_records :: "dataframe \<Rightarrow> db_row list" where
  "to_records df = map (zip (columns df)) (rows df)"

text \<open>
  Modelled from the spec: \<^verbatim>\<open>DataFrame.to_sql(name, con, if_exists="append", index=False)\<close>,
  the library call that reaches the database, which is not part of the repository. The
  call either fails, leaving every table as it was, or appends the rows of the chunk
  after the rows the table already has.
\<close>

definition df_to_sql :: "world \<Rightarrow> dataframe \<Rightarrow> string \<Rightarrow> string \<Rightarrow> state \<Rightarrow> exn option \<times> state" where
  "df_to_sql w df name con st =
     (case db_outcome w (db_calls st) of
        Some e \<Rightarrow> (Some e, st\<lparr>db_calls := Suc (db_calls st)\<rparr>)
      | None \<Rightarrow>
          (None, st\<lparr>tables := (tables st)(name := tables st name @ to_records df),
                    db_calls := Suc (db_calls st)\<rparr>))"

definition to_sql :: "world \<Rightarrow> string \<Rightarrow> dataframe \<Rightarrow> string \<Rightarrow> state \<Rightarrow> (exn + bool) \<times> state" where
  "to_sql w ds_name df conn_url st =
     (case df_to_sql w df ds_name conn_url st of
        (None, st') \<Rightarrow> (Inr True, st')
      | (Some e, st') \<Rightarrow>
          if exn_class e = DatabaseError
          then (Inl (Exn DatabaseError ''Error loading data to database: '' (Some e)),
                logger ERROR (Db_load_error ds_name e) st')
          else (Inl e, st'))"

section \<open>Dataset Loader\<close>

definition basename :: "string \<Rightarrow> string" where
  "basename p = rev (takeWhile (\<lambda>c. c \<noteq> CHR ''/'') (rev p))"

text \<open>
  The inner loop of \<^verbatim>\<open>db_loader\<close>, driving the generator: the \<^verbatim>\<open>try\<close> covers the loop
  body only, so an exception raised by the generator leaves the loop.
\<close>

fun for_chunks ::
  "world \<Rightarrow> string \<Rightarrow> string \<Rightarrow> string \<Rightarrow> (nat \<times> dataframe) event list \<Rightarrow> state
     \<Rightarrow> (exn + unit) \<times> state" where
  "for_chunks w ds_name file conn_url [] st = (Inr (), st)"
| "for_chunks w ds_name file conn_url (Emit (lvl, m) # evs) st =
     for_chunks w ds_name file conn_url evs (logger lvl m st)"
| "for_chunks w ds_name file conn_url (Raise e # evs) st = (Inl e, st)"
| "for_chunks w ds_name file conn_url (Yield (idx, df) # evs) st =
     (let st1 = logger INFO (Processing_chunk idx (length (rows df)) ds_name (basename file)) st
      in case to_sql w (ds_name @ ''_test'') df conn_url st1 of
           (Inr ok, st2) \<Rightarrow>
             for_chunks w ds_name file conn_url evs
               (if ok then logger INFO (Chunk_processed idx ds_name) st2 else st2)
         | (Inl e, st2) \<Rightarrow>
             for_chunks w ds_name file conn_url evs
               (logger ERROR (Chunk_failed idx ds_name (basename file) e) st2))"

fun for_files ::
  "world \<Rightarrow> catalog \<Rightarrow> string \<Rightarrow> string \<Rightarrow> int \<Rightarrow> string list \<Rightarrow> state \<Rightarrow> (exn + unit) \<times> state" where
  "for_files w schemas conn_url ds_name chunksize [] st = (Inr (), st)"
| "for_files w schemas conn_url ds_name chunksize (file # csv_files) st =
     (let st1 = logger INFO (Starting_file file ds_name) st
      in case for_chunks w ds_name file conn_url (read_csv w file schemas ds_name chunksize) st1 of
           (Inl e, st2) \<Rightarrow> (Inl e, st2)
         | (Inr u, st2) \<Rightarrow> for_files w schemas conn_url ds_name chunksize csv_files st2)"

definition db_loader ::
  "world \<Rightarrow> string \<Rightarrow> catalog \<Rightarrow> string \<Rightarrow> string \<Rightarrow> int \<Rightarrow> state \<Rightarrow> (exn + unit) \<times> state" where
  "db_loader w src_base_dir schemas conn_url ds_name chunksize st =
     (let st1 = logger INFO (Searching_files ds_name src_base_dir) st;
          csv_files = glob w (src_base_dir @ ''/'' @ ds_name @ ''/part-*'')
      in if length csv_files = 0
         then (Inl (Exn ValueError (''No files found for '' @ ds_name) None),
               logger ERROR (No_files_found ds_name src_base_dir) st1)
         else case for_files w schemas conn_url ds_name chunksize csv_files st1 of
                (Inl e, st2) \<Rightarrow> (Inl e, st2)
              | (Inr u, st2) \<Rightarrow> (Inr (), logger INFO (Finished_dataset ds_name) st2))"

section \<open>Run Orchestrator\<close>

definition env_names :: "string list" where
  "env_names = [''SRC_BASE_DIR'', ''DB_USER'', ''DB_PASS'', ''DB_HOST'', ''DB_PORT'', ''DB_NAME'']"

text \<open>\<^verbatim>\<open>not env_var[var]\<close>: the variable is unset or empty.\<close>

definition missing_variable :: "world \<Rightarrow> string option" where
  "missing_variable w =
     find (\<lambda>var. case environ w var of None \<Rightarrow> True | Some val \<Rightarrow> val = []) env_names"

text \<open>The value of a variable in an f-string or a path, read after the check above.\<close>

definition getenv :: "world \<Rightarrow> string \<Rightarrow> string" where
  "getenv w var = (case environ w var of None \<Rightarrow> ''None'' | Some val \<Rightarrow> val)"

definition path_join :: "string \<Rightarrow> string \<Rightarrow> string" where
  "path_join a b =
     (if b \<noteq> [] \<and> hd b = CHR ''/'' then b
      else if a = [] \<or> last a = CHR ''/'' then a @ b
      else a @ ''/'' @ b)"

text \<open>\<^verbatim>\<open>not ds_names\<close>: None, the empty string and the empty list are false.\<close>

fun falsy :: "selector \<Rightarrow> bool" where
  "falsy PyNone = True"
| "falsy (PyStr s) = (s = [])"
| "falsy (PyList l) = (l = [])"

fun for_datasets ::
  "world \<Rightarrow> string \<Rightarrow> catalog \<Rightarrow> string \<Rightarrow> int \<Rightarrow> string list \<Rightarrow> state \<Rightarrow> (exn + unit) \<times> state" where
  "for_datasets w src_base_dir schemas db_conn_url chunksize [] st = (Inr (), st)"
| "for_datasets w src_base_dir schemas db_conn_url chunksize (ds_name # ds_names) st =
     (case db_loader w src_base_dir schemas db_conn_url ds_name chunksize st of
        (Inl e, st') \<Rightarrow> (Inl e, st')
      | (Inr u, st') \<Rightarrow> for_datasets w src_base_dir schemas db_conn_url chunksize ds_names st')"

definition main :: "world \<Rightarrow> selector \<Rightarrow> int \<Rightarrow> state \<Rightarrow> (exn + unit) \<times> state" where
  "main w ds_names chunksize st =
     (case missing_variable w of
        Some var \<Rightarrow> (Inl (Exn ValueError (''Missing environment variable '' @ var) None), st)
      | None \<Rightarrow>
         (let src_base_dir = getenv w ''SRC_BASE_DIR'';
              db_conn_url = ''postgresql://'' @ getenv w ''DB_USER'' @ '':'' @ getenv w ''DB_PASS''
                @ ''@'' @ getenv w ''DB_HOST'' @ '':'' @ getenv w ''DB_PORT''
                @ ''/'' @ getenv w ''DB_NAME'';
              schema_path = path_join src_base_dir ''schemas.json''
          in (case schema_file w schema_path of
                Inl e \<Rightarrow>
                  (if exn_class e = JSONDecodeError
                   then (Inl e, logger CRITICAL (Schema_unparsable e) st)
                   else if exn_class e = FileNotFoundError
                   then (Inl e, logger CRITICAL (Schema_missing src_base_dir) st)
                   else (Inl e, st))
              | Inr schemas \<Rightarrow>
                 (let st1 = logger INFO (Schema_loaded schema_path) st;
                      ds_names' = (if falsy ds_names then PyList (map fst schemas) else ds_names);
                      st2 = (if falsy ds_names
                             then logger INFO (Loading_all (map fst schemas)) st1
                             else logger INFO (Loading_specified ds_names) st1)
                  in (case ds_names' of
                        PyList names \<Rightarrow>
                          for_datasets w src_base_dir schemas db_conn_url chunksize names st2
                      | PyStr name \<Rightarrow>
                          db_loader w src_base_dir schemas db_conn_url name chunksize st2
                      | PyNone \<Rightarrow>
                          db_loader w src_base_dir schemas db_conn_url ''None'' chunksize st2)))))"

section \<open>Vocabulary of the properties\<close>



text \<open>The position and the name of a descriptor that has both.\<close>

definition position_of :: "string \<Rightarrow> descriptor \<Rightarrow> int" where
  "position_of sorting_key d = (case map_of d sorting_key of Some (JInt i) \<Rightarrow> i | _ \<Rightarrow> 0)"

definition column_name_of :: "descriptor \<Rightarrow> jval" where
  "column_name_of d = (case map_of d ''column_name'' of Some v \<Rightarrow> v | None \<Rightarrow> JStr [])"

text \<open>Every descriptor has an integer sort key and a column name.\<close>

definition valid_descriptors :: "descriptor list \<Rightarrow> string \<Rightarrow> bool" where
  "valid_descriptors descriptors sorting_key =
     list_all (\<lambda>d. (case map_of d sorting_key of Some (JInt i) \<Rightarrow> True | _ \<Rightarrow> False)
                 \<and> map_of d ''column_name'' \<noteq> None) descriptors"


text \<open>A catalog whose two columns share one position.\<close>

definition tied_catalog :: catalog where
  "tied_catalog =
     [(''t'', [[(''column_name'', JStr ''a''), (''column_position'', JInt 1)],
               [(''column_name'', JStr ''b''), (''column_position'', JInt 1)]])]"

text \<open>
  What a generator yields, in order, up to the point where it raises, and the exception
  it raises, if any.
\<close>

fun yielded :: "'a event list \<Rightarrow> 'a list" where
  "yielded [] = []"
| "yielded (Yield x # evs) = x # yielded evs"
| "yielded (Emit r # evs) = yielded evs"
| "yielded (Raise e # evs) = []"

fun raised :: "'a event list \<Rightarrow> exn option" where
  "raised [] = None"
| "raised (Yield x # evs) = raised evs"
| "raised (Emit r # evs) = raised evs"
| "raised (Raise e # evs) = Some e"

text \<open>
  Of the chunks sent to the database one after the other, the first as call number \<open>n\<close>,
  those whose write the database accepts.
\<close>

fun accepted :: "world \<Rightarrow> nat \<Rightarrow> 'a list \<Rightarrow> 'a list" where
  "accepted w n [] = []"
| "accepted w n (x # xs) =
     (if db_outcome w n = None then x # accepted w (Suc n) xs else accepted w (Suc n) xs)"

text \<open>
  The two records the Dataset Loader logs for a chunk: processed successfully, or failed.
\<close>

fun chunk_processed :: "log_record \<Rightarrow> bool" where
  "chunk_processed (lvl, Chunk_processed idx ds_name) = True"
| "chunk_processed r = False"

fun chunk_failed :: "log_record \<Rightarrow> bool" where
  "chunk_failed (lvl, Chunk_failed idx ds_name file e) = True"
| "chunk_failed r = False"

text \<open>
  The source files of a dataset as \<^verbatim>\<open>glob\<close> lists them, the chunks the reader yields for
  one file, and for a list of files.
\<close>

definition dataset_files :: "world \<Rightarrow> string \<Rightarrow> string \<Rightarrow> string list" where
  "dataset_files w src_base_dir ds_name = glob w (src_base_dir @ ''/'' @ ds_name @ ''/part-*'')"

definition file_chunks :: "world \<Rightarrow> catalog \<Rightarrow> string \<Rightarrow> int \<Rightarrow> string \<Rightarrow> dataframe list" where
  "file_chunks w schemas ds_name chunksize file =
     map snd (yielded (read_csv w file schemas ds_name chunksize))"

definition files_chunks :: "world \<Rightarrow> catalog \<Rightarrow> string \<Rightarrow> int \<Rightarrow> string list \<Rightarrow> dataframe list" where
  "files_chunks w schemas ds_name chunksize files =
     concat (map (file_chunks w schemas ds_name chunksize) files)"

text \<open>
  A generator is quiet when none of the records it logs is one of the two chunk records
  above, so that those are logged by the Dataset Loader alone.
\<close>

definition quiet :: "'a event list \<Rightarrow> bool" where
  "quiet evs =
     list_all (\<lambda>ev. case ev of Emit r \<Rightarrow> \<not> chunk_processed r \<and> \<not> chunk_failed r | _ \<Rightarrow> True) evs"

text \<open>
  The reader reads every file of the list to the end without raising.
\<close>

definition readable :: "world \<Rightarrow> catalog \<Rightarrow> string \<Rightarrow> int \<Rightarrow> string list \<Rightarrow> bool" where
  "readable w schemas ds_name chunksize files =
     list_all (\<lambda>file. raised (read_csv w file schemas ds_name chunksize) = None) files"

text \<open>
  The chunks the reader yields over a list of files until it first raises, and the
  exception of that first raise, if any.
\<close>

fun attempted_chunks :: "world \<Rightarrow> catalog \<Rightarrow> string \<Rightarrow> int \<Rightarrow> string list \<Rightarrow> dataframe list" where
  "attempted_chunks w schemas ds_name chunksize [] = []"
| "attempted_chunks w schemas ds_name chunksize (f # fs) =
     file_chunks w schemas ds_name chunksize f
     @ (if raised (read_csv w f schemas ds_name chunksize) = None
        then attempted_chunks w schemas ds_name chunksize fs else [])"

fun first_raised :: "world \<Rightarrow> catalog \<Rightarrow> string \<Rightarrow> int \<Rightarrow> string list \<Rightarrow> exn option" where
  "first_raised w schemas ds_name chunksize [] = None"
| "first_raised w schemas ds_name chunksize (f # fs) =
     (case raised (read_csv w f schemas ds_name chunksize) of
        Some e \<Rightarrow> Some e
      | None \<Rightarrow> first_raised w schemas ds_name chunksize fs)"

text \<open>
  Example inputs. An empty database with an empty log; a catalog with the columns id, name,
  amount at positions 2, 0, 1; a world with one source file of two lines and a database
  that accepts every write; and variants of it: a database that refuses the second write,
  a file whose second line has one field too many, and a listing whose first file cannot
  be opened.
\<close>

definition state0 :: state where
  "state0 = \<lparr>tables = (\<lambda>t. []), logged = [], db_calls = 0\<rparr>"

definition orders_catalog :: catalog where
  "orders_catalog =
     [(''orders'', [[(''column_name'', JStr ''id''), (''column_position'', JInt 2)],
                    [(''column_name'', JStr ''name''), (''column_position'', JInt 0)],
                    [(''column_name'', JStr ''amount''), (''column_position'', JInt 1)]])]"

definition orders_lines :: "string list list" where
  "orders_lines = [[''a'', ''1'', ''100''], [''b'', ''2'', ''200'']]"

definition orders_world :: world where
  "orders_world =
     \<lparr>environ = map_of [(''SRC_BASE_DIR'', ''/data''), (''DB_USER'', ''u''), (''DB_PASS'', ''p''),
                          (''DB_HOST'', ''h''), (''DB_PORT'', ''5432''), (''DB_NAME'', ''db'')],
      schema_file = (\<lambda>path. if path = ''/data/schemas.json'' then Inr orders_catalog
                            else Inl (Exn FileNotFoundError path None)),
      glob = (\<lambda>pattern. if pattern = ''/data/orders/part-*'' then [''/data/orders/part-00000''] else []),
      pd_open = (\<lambda>path names. if path = ''/data/orders/part-00000'' then Inr orders_lines
                              else Inl (Exn FileNotFoundError path None)),
      db_outcome = (\<lambda>n. None)\<rparr>"






definition orders_rows :: "db_row list" where
  "orders_rows =
     [[(JStr ''name'', ''a''), (JStr ''amount'', ''1''), (JStr ''id'', ''100'')],
      [(JStr ''name'', ''b''), (JStr ''amount'', ''2''), (JStr ''id'', ''200'')]]"

section \<open>Properties of the Column Resolver\<close>

lemma map_exn_getitem:
  "map_exn (\<lambda>d. getitem d k) ds =
     (if list_ex (\<lambda>d. map_of d k = None) ds then Inl (Exn KeyError k None)
      else Inr (map (\<lambda>d. the (map_of d k)) ds))"
  by (induction ds) (auto simp: getitem_def split: option.splits)

lemma insort_key_decorated:
  "map (\<lambda>x. (f x, x)) (insort_key f x ys) = insort_key fst (f x, x) (map (\<lambda>x. (f x, x)) ys)"
  by (induction ys) auto

lemma sort_key_decorated:
  "sort_key fst (map (\<lambda>x. (f x, x)) xs) = map (\<lambda>x. (f x, x)) (sort_key f xs)"
  by (induction xs) (auto simp: insort_key_decorated)

lemma undecorate_sort:
  "map snd (sort_key fst (zip (map f xs) xs)) = sort_key f xs"
proof -
  have "zip (map f xs) xs = map (\<lambda>x. (f x, x)) xs"
    by (induction xs) auto
  then show ?thesis
    by (simp add: sort_key_decorated comp_def)
qed

lemma sorted_by_key_getitem:
  "sorted_by_key (\<lambda>d. getitem d k) ds =
     (if list_ex (\<lambda>d. map_of d k = None) ds then Inl (Exn KeyError k None)
      else if list_all (\<lambda>d. is_JInt (the (map_of d k))) ds
        then Inr (sort_key (\<lambda>d. the_int (the (map_of d k))) ds)
      else if list_all (\<lambda>d. is_JStr (the (map_of d k))) ds
        then Inr (sort_key (\<lambda>d. the_str (the (map_of d k))) ds)
      else Inl (Exn TypeError ''not supported between instances'' None))"
  by (simp add: sorted_by_key_def map_exn_getitem undecorate_sort comp_def list_all_iff)

lemma get_column_names_cases:
  "get_column_names schemas ds_name sorting_key =
     (case map_of schemas ds_name of
        None \<Rightarrow> (Inl (Exn KeyError ds_name None),
                  [(ERROR, Malformed_schema ds_name sorting_key (Exn KeyError ds_name None))])
      | Some descriptors \<Rightarrow>
          (case sorted_by_key (\<lambda>d. getitem d sorting_key) descriptors of
             Inl e \<Rightarrow> (Inl e, if exn_class e = KeyError
                              then [(ERROR, Malformed_schema ds_name sorting_key e)] else [])
           | Inr sorted_schema \<Rightarrow>
               if list_ex (\<lambda>d. map_of d ''column_name'' = None) sorted_schema
               then (Inl (Exn KeyError ''column_name'' None),
                     [(ERROR, Malformed_schema ds_name sorting_key (Exn KeyError ''column_name'' None))])
               else (Inr (map (\<lambda>d. the (map_of d ''column_name'')) sorted_schema), [])))"
  by (simp add: get_column_names_def getitem_def [of schemas] map_exn_getitem
           split: option.splits sum.splits)





lemma position_of_valid:
  "valid_descriptors ds k \<Longrightarrow> d \<in> set ds \<Longrightarrow> map_of d k = Some (JInt (position_of k d))"
  by (auto simp: valid_descriptors_def position_of_def list_all_iff split: option.splits jval.splits)

lemma sorted_by_key_valid:
  assumes "valid_descriptors ds k"
  shows "sorted_by_key (\<lambda>d. getitem d k) ds = Inr (sort_key (position_of k) ds)"
proof -
  have p: "\<forall>d\<in>set ds. map_of d k = Some (JInt (position_of k d))"
    using assms position_of_valid by blast
  then have "map (\<lambda>d. the_int (the (map_of d k))) ds = map (position_of k) ds"
    by simp
  then have "sort_key (\<lambda>d. the_int (the (map_of d k))) ds = sort_key (position_of k) ds"
    by (metis undecorate_sort)
  with p show ?thesis
    by (simp add: sorted_by_key_getitem list_ex_iff list_all_iff)
qed

text \<open>
  C4 (amended): for a catalog in which every descriptor of the dataset has an integer
  sort key and a column name, the Column Resolver returns the column names of the
  descriptors sorted by position in ascending order, descriptors of equal position
  keeping their catalog order; the order of positions is strictly ascending when the
  positions are pairwise distinct.
\<close>

theorem get_column_names_sorted:
  assumes "map_of schemas ds_name = Some descriptors"
    and "valid_descriptors descriptors sorting_key"
  shows "let sorted_schema = sort_key (position_of sorting_key) descriptors in
     get_column_names schemas ds_name sorting_key = (Inr (map column_name_of sorted_schema), [])
     \<and> sorted (map (position_of sorting_key) sorted_schema)
     \<and> (\<forall>p. filter (\<lambda>d. position_of sorting_key d = p) sorted_schema
              = filter (\<lambda>d. position_of sorting_key d = p) descriptors)
     \<and> (distinct (map (position_of sorting_key) descriptors) \<longrightarrow>
           sorted_wrt (<) (map (position_of sorting_key) sorted_schema))"
proof -
  let ?pos = "position_of sorting_key"
  let ?s = "sort_key ?pos descriptors"
  have names: "\<forall>d\<in>set ?s. map_of d ''column_name'' = Some (column_name_of d)"
    using assms(2) by (auto simp: valid_descriptors_def list_all_iff column_name_of_def)
  then have m: "map (\<lambda>d. the (map_of d ''column_name'')) ?s = map column_name_of ?s"
    by simp
  from names have n: "\<not> list_ex (\<lambda>d. map_of d ''column_name'' = None) ?s"
    by (simp add: list_ex_iff)
  have 1: "get_column_names schemas ds_name sorting_key = (Inr (map column_name_of ?s), [])"
    using assms(1) n m by (simp add: get_column_names_cases sorted_by_key_valid [OF assms(2)])
  have 2: "sorted (map ?pos ?s)"
    by (rule sorted_sort_key)
  have 3: "\<forall>p. filter (\<lambda>d. ?pos d = p) ?s = filter (\<lambda>d. ?pos d = p) descriptors"
    by (simp add: sort_key_stable)
  have 4: "sorted_wrt (<) (map ?pos ?s)" if d: "distinct (map ?pos descriptors)"
  proof -
    from d have "distinct descriptors" and "inj_on ?pos (set descriptors)"
      by (simp_all add: distinct_map)
    then have "distinct (map ?pos ?s)"
      by (simp add: distinct_map)
    with 2 show ?thesis
      by (simp add: strict_sorted_iff)
  qed
  from 1 2 3 4 show ?thesis
    by (simp add: Let_def)
qed

text \<open>
  C4 as stated fails: with two columns at the same position the resolver returns both
  names, and the positions of the returned columns, 1 and 1, are not strictly ascending.
\<close>

theorem get_column_names_ties_not_strict:
  "get_column_names tied_catalog ''t'' ''column_position'' = (Inr [JStr ''a'', JStr ''b''], [])
   \<and> map (\<lambda>d. getitem d ''column_position'') (snd (hd tied_catalog)) = [Inr (JInt 1), Inr (JInt 1)]
   \<and> \<not> sorted_wrt (<) [1, 1 :: int]"
  by (simp add: tied_catalog_def get_column_names_def getitem_def sorted_by_key_def)

section \<open>Properties of the Chunked File Reader\<close>

declare chunks_of.simps [simp del]

lemma chunks_of_Nil [simp]: "chunks_of n [] = []"
  by (simp add: chunks_of.simps)

lemma chunks_of_step: "0 < n \<Longrightarrow> xs \<noteq> [] \<Longrightarrow> chunks_of n xs = take n xs # chunks_of n (drop n xs)"
  by (subst chunks_of.simps) simp

lemma chunks_of_eq_Nil: "0 < n \<Longrightarrow> chunks_of n xs = [] \<longleftrightarrow> xs = []"
  by (cases "xs = []") (simp_all add: chunks_of_step)

lemma concat_chunks_of: "0 < n \<Longrightarrow> concat (chunks_of n xs) = xs"
proof (induction n xs rule: chunks_of.induct)
  case (1 n xs)
  then show ?case
    by (cases "xs = []") (simp_all add: chunks_of_step)
qed

lemma ceil_div_step: "0 < n \<Longrightarrow> 0 < m \<Longrightarrow> (m + n - 1) div n = Suc ((m - 1) div n)"
proof -
  assume "0 < n" and "0 < m"
  then have "m + n - 1 = (m - 1) + n"
    by simp
  then have "(m + n - 1) div n = ((m - 1) + n) div n"
    by (rule arg_cong)
  also have "\<dots> = Suc ((m - 1) div n)"
    using \<open>0 < n\<close> by (simp only: div_add_self2 Suc_eq_plus1)
  finally show ?thesis .
qed

lemma length_chunks_of: "0 < n \<Longrightarrow> length (chunks_of n xs) = (length xs + n - 1) div n"
proof (induction n xs rule: chunks_of.induct)
  case (1 n xs)
  show ?case
  proof (cases "xs = []")
    case True
    from 1(2) have "(n - 1) div n = 0"
      by (intro div_less) simp
    with True show ?thesis
      by simp
  next
    case False
    with 1(2) have step: "chunks_of n xs = take n xs # chunks_of n (drop n xs)"
      by (rule_tac chunks_of_step)
    from False have pos: "0 < length xs"
      by simp
    have ih: "length (chunks_of n (drop n xs)) = (length xs - n + n - 1) div n"
      using 1(1) False 1(2) by simp
    show ?thesis
    proof (cases "length xs \<le> n")
      case True
      then have "drop n xs = []"
        by simp
      then have a: "length (chunks_of n xs) = 1"
        by (simp only: step chunks_of_Nil) simp
      from True pos have "length xs - 1 < n"
        by arith
      then have "(length xs - 1) div n = 0"
        by (rule div_less)
      with ceil_div_step [OF 1(2) pos] a show ?thesis
        by (simp only:)
    next
      case gt: False
      then have "length xs - n + n - 1 = length xs - 1"
        by arith
      with ih have "length (chunks_of n (drop n xs)) = (length xs - 1) div n"
        by (simp only:)
      then have "length (chunks_of n xs) = Suc ((length xs - 1) div n)"
        by (simp only: step length_Cons)
      with ceil_div_step [OF 1(2) pos] show ?thesis
        by (simp only:)
    qed
  qed
qed

lemma chunk_sizes:
  "0 < n \<Longrightarrow> i < length (chunks_of n xs) \<Longrightarrow>
     length (chunks_of n xs ! i) =
       (if Suc i < length (chunks_of n xs) then n
        else if length xs mod n = 0 then n else length xs mod n)"
proof (induction n xs arbitrary: i rule: chunks_of.induct)
  case (1 n xs)
  from 1(3) have ne: "xs \<noteq> []"
    by auto
  with 1(2) have step: "chunks_of n xs = take n xs # chunks_of n (drop n xs)"
    by (rule_tac chunks_of_step)
  show ?case
  proof (cases i)
    case 0
    show ?thesis
    proof (cases "length xs \<le> n")
      case True
      then have "chunks_of n (drop n xs) = []"
        by simp
      moreover from True ne 1(2) have "(if length xs mod n = 0 then n else length xs mod n) = length xs"
        by (cases "length xs = n") auto
      ultimately show ?thesis
        using 0 True by (simp add: step)
    next
      case False
      then have "chunks_of n (drop n xs) \<noteq> []"
        using 1(2) by (simp add: chunks_of_eq_Nil)
      with 0 False show ?thesis
        by (simp add: step)
    qed
  next
    case (Suc j)
    with 1(3) have j: "j < length (chunks_of n (drop n xs))"
      by (simp add: step)
    then have "drop n xs \<noteq> []"
      by auto
    then have gt: "n < length xs"
      by simp
    then have m: "(length xs - n) mod n = length xs mod n"
      by (simp add: le_mod_geq)
    have "length (chunks_of n (drop n xs) ! j) =
       (if Suc j < length (chunks_of n (drop n xs)) then n
        else if length (drop n xs) mod n = 0 then n else length (drop n xs) mod n)"
      using 1(1) [of j] 1(2) ne j by simp
    with Suc m show ?thesis
      by (simp add: step)
  qed
qed

lemma set_chunks_of: "c \<in> set (chunks_of n xs) \<Longrightarrow> set c \<subseteq> set xs"
proof (induction n xs rule: chunks_of.induct)
  case (1 n xs)
  show ?case
  proof (cases "n = 0 \<or> xs = []")
    case True
    with 1(2) show ?thesis
      by (auto simp: chunks_of.simps [of n xs])
  next
    case False
    then have "chunks_of n xs = take n xs # chunks_of n (drop n xs)"
      by (simp add: chunks_of_step)
    with 1 False show ?thesis
      by (auto dest: in_set_takeD in_set_dropD)
  qed
qed

lemma yield_enumerated_good:
  "yield_enumerated csv_path k (map Inr dfs) = map Yield (zip [k..<k + length dfs] dfs)"
proof (induction dfs arbitrary: k)
  case Nil
  show ?case by simp
next
  case (Cons df dfs)
  have "[k..<k + length (df # dfs)] = k # [Suc k..<Suc k + length dfs]"
    by (simp add: upt_rec)
  with Cons [of "Suc k"] show ?case
    by simp
qed

lemma yielded_map_Yield [simp]: "yielded (map Yield xs) = xs"
  by (induction xs) auto

lemma raised_map_Yield [simp]: "raised (map Yield xs) = None"
  by (induction xs) auto

lemma yielded_Emits [simp]: "yielded (map Emit rs @ evs) = yielded evs"
  by (induction rs) auto

lemma raised_Emits [simp]: "raised (map Emit rs @ evs) = raised evs"
  by (induction rs) auto

lemma parse_chunk_good:
  "\<forall>fields\<in>set lines. length fields = length names \<Longrightarrow>
     parse_chunk names lines = Inr \<lparr>columns = names, rows = lines\<rparr>"
  by (simp add: parse_chunk_def list_all_iff)

lemma read_csv_good:
  assumes "fst (get_column_names schema ds_name ''column_position'') = Inr names"
    and "pd_open w csv_path names = Inr lines"
    and "\<forall>fields\<in>set lines. length fields = length names"
    and "0 < chunksize"
  shows "yielded (read_csv w csv_path schema ds_name chunksize)
           = zip [0..<length (chunks_of (nat chunksize) lines)]
               (map (\<lambda>c. \<lparr>columns = names, rows = c\<rparr>) (chunks_of (nat chunksize) lines))"
    and "raised (read_csv w csv_path schema ds_name chunksize) = None"
proof -
  let ?cs = "chunks_of (nat chunksize) lines"
  have "\<forall>c\<in>set ?cs. parse_chunk names c = Inr \<lparr>columns = names, rows = c\<rparr>"
    using assms(3) set_chunks_of by (blast intro: parse_chunk_good)
  then have p: "map (parse_chunk names) ?cs = map Inr (map (\<lambda>c. \<lparr>columns = names, rows = c\<rparr>) ?cs)"
    by simp
  obtain lg where g: "get_column_names schema ds_name ''column_position'' = (Inr names, lg)"
    using assms(1) by (cases "get_column_names schema ds_name ''column_position''") auto
  have r: "read_csv w csv_path schema ds_name chunksize =
      map Emit lg @ Emit (DEBUG, Reading_csv csv_path names) #
        map Yield (zip [0..<length ?cs] (map (\<lambda>c. \<lparr>columns = names, rows = c\<rparr>) ?cs))"
    using assms(2,4) yield_enumerated_good [of csv_path 0 "map (\<lambda>c. \<lparr>columns = names, rows = c\<rparr>) ?cs"]
    by (simp add: read_csv_def g pd_read_csv_def p del: map_map)
  show "yielded (read_csv w csv_path schema ds_name chunksize)
           = zip [0..<length ?cs] (map (\<lambda>c. \<lparr>columns = names, rows = c\<rparr>) ?cs)"
    by (simp add: r del: map_map)
  show "raised (read_csv w csv_path schema ds_name chunksize) = None"
    by (simp add: r del: map_map)
qed

text \<open>
  C2: for a file that opens and whose R rows all have as many fields as there are column
  names, and a chunk size C > 0, the reader runs to the end without raising and yields
  exactly ceil(R/C) pairs, with indices 0, 1, ... in order; every chunk carries the
  resolved column names, every chunk but the last has C rows, the last has R mod C rows
  (C when that is 0), and the rows of the chunks, concatenated in index order, are the
  rows of the file.
\<close>

theorem read_csv_chunks:
  assumes "fst (get_column_names schema ds_name ''column_position'') = Inr names"
    and "pd_open w csv_path names = Inr lines"
    and "\<forall>fields\<in>set lines. length fields = length names"
    and "0 < chunksize"
  shows "let out = yielded (read_csv w csv_path schema ds_name chunksize);
             R = length lines; C = nat chunksize; n = (R + C - 1) div C
         in raised (read_csv w csv_path schema ds_name chunksize) = None
          \<and> length out = n
          \<and> map fst out = [0..<n]
          \<and> (\<forall>i<n. columns (snd (out ! i)) = names
                 \<and> length (rows (snd (out ! i)))
                     = (if Suc i < n then C else if R mod C = 0 then C else R mod C))
          \<and> concat (map (\<lambda>(idx, df). rows df) out) = lines"
proof -
  let ?C = "nat chunksize"
  let ?cs = "chunks_of ?C lines"
  let ?out = "zip [0..<length ?cs] (map (\<lambda>c. \<lparr>columns = names, rows = c\<rparr>) ?cs)"
  from assms(4) have C: "0 < ?C"
    by simp
  have n: "length ?cs = (length lines + ?C - 1) div ?C"
    using C by (rule length_chunks_of)
  have len: "length ?out = length ?cs"
    by simp
  have idx: "map fst ?out = [0..<length ?cs]"
    by (simp del: map_map)
  have sizes: "columns (snd (?out ! i)) = names
       \<and> length (rows (snd (?out ! i)))
           = (if Suc i < length ?cs then ?C else if length lines mod ?C = 0 then ?C else length lines mod ?C)"
    if "i < length ?cs" for i
    using that chunk_sizes [OF C that] by simp
  have sn: "map snd ?out = map (\<lambda>c. \<lparr>columns = names, rows = c\<rparr>) ?cs"
    by (simp del: map_map)
  have "map (\<lambda>(idx, df). rows df) out = map rows (map snd out)" for out :: "(nat \<times> dataframe) list"
    by (simp add: case_prod_unfold comp_def)
  then have "map (\<lambda>(idx, df). rows df) ?out = map rows (map snd ?out)" .
  also have "\<dots> = ?cs"
    unfolding sn by (simp add: comp_def)
  finally have "concat (map (\<lambda>(idx, df). rows df) ?out) = concat ?cs"
    by simp
  then have cat: "concat (map (\<lambda>(idx, df). rows df) ?out) = lines"
    using C by (simp only: concat_chunks_of)
  from read_csv_good [OF assms] len idx sizes cat show ?thesis
    unfolding Let_def n [symmetric] by (simp only: simp_thms) blast
qed

section \<open>Properties of the Dataset Loader\<close>

lemma logger_simps [simp]:
  "tables (logger lvl m st) = tables st"
  "db_calls (logger lvl m st) = db_calls st"
  "logged (logger lvl m st) = (if lvl = DEBUG then logged st else logged st @ [(lvl, m)])"
  by (simp_all add: logger_def)

lemma to_sql_ok:
  "db_outcome w (db_calls st) = None \<Longrightarrow>
     to_sql w t df url st =
       (Inr True, st\<lparr>tables := (tables st)(t := tables st t @ to_records df),
                      db_calls := Suc (db_calls st)\<rparr>)"
  by (simp add: to_sql_def df_to_sql_def)

lemma to_sql_fail:
  "db_outcome w (db_calls st) = Some e \<Longrightarrow>
     to_sql w t df url st =
       (if exn_class e = DatabaseError
        then (Inl (Exn DatabaseError ''Error loading data to database: '' (Some e)),
              logger ERROR (Db_load_error t e) (st\<lparr>db_calls := Suc (db_calls st)\<rparr>))
        else (Inl e, st\<lparr>db_calls := Suc (db_calls st)\<rparr>))"
  by (simp add: to_sql_def df_to_sql_def)

lemma to_sql_fail_state:
  assumes "db_outcome w (db_calls st) = Some e"
  shows "\<exists>e'. fst (to_sql w t df url st) = Inl e'"
    and "tables (snd (to_sql w t df url st)) = tables st"
    and "db_calls (snd (to_sql w t df url st)) = Suc (db_calls st)"
    and "filter chunk_processed (logged (snd (to_sql w t df url st))) = filter chunk_processed (logged st)"
    and "filter chunk_failed (logged (snd (to_sql w t df url st))) = filter chunk_failed (logged st)"
  using assms by (simp_all add: to_sql_fail)

lemma for_chunks_Yield_ok:
  assumes "db_outcome w (db_calls st) = None"
  shows "for_chunks w ds_name fl url (Yield (idx, df) # evs) st =
     for_chunks w ds_name fl url evs
       (logger INFO (Chunk_processed idx ds_name)
          ((logger INFO (Processing_chunk idx (length (rows df)) ds_name (basename fl)) st)
             \<lparr>tables := (tables st)((ds_name @ ''_test'') := tables st (ds_name @ ''_test'') @ to_records df),
              db_calls := Suc (db_calls st)\<rparr>))"
proof -
  let ?st1 = "logger INFO (Processing_chunk idx (length (rows df)) ds_name (basename fl)) st"
  from assms have "db_outcome w (db_calls ?st1) = None"
    by simp
  from to_sql_ok [OF this] show ?thesis
    by (simp add: Let_def)
qed

lemma for_chunks_Yield_fail_eq:
  assumes "db_outcome w (db_calls st) = Some e"
  shows "for_chunks w ds_name fl url (Yield (idx, df) # evs) st =
     for_chunks w ds_name fl url evs
       (if exn_class e = DatabaseError
        then logger ERROR (Chunk_failed idx ds_name (basename fl)
               (Exn DatabaseError ''Error loading data to database: '' (Some e)))
             (logger ERROR (Db_load_error (ds_name @ ''_test'') e)
               ((logger INFO (Processing_chunk idx (length (rows df)) ds_name (basename fl)) st)
                  \<lparr>db_calls := Suc (db_calls st)\<rparr>))
        else logger ERROR (Chunk_failed idx ds_name (basename fl) e)
               ((logger INFO (Processing_chunk idx (length (rows df)) ds_name (basename fl)) st)
                  \<lparr>db_calls := Suc (db_calls st)\<rparr>))"
proof -
  let ?st1 = "logger INFO (Processing_chunk idx (length (rows df)) ds_name (basename fl)) st"
  from assms have "db_outcome w (db_calls ?st1) = Some e"
    by simp
  from to_sql_fail [OF this] show ?thesis
    by (cases "exn_class e = DatabaseError") (simp_all add: Let_def)
qed

lemma for_chunks_Yield_fail:
  assumes "db_outcome w (db_calls st) = Some e"
  shows "\<exists>st'. for_chunks w ds_name fl url (Yield (idx, df) # evs) st = for_chunks w ds_name fl url evs st'
           \<and> tables st' = tables st \<and> db_calls st' = Suc (db_calls st)
           \<and> filter chunk_processed (logged st') = filter chunk_processed (logged st)
           \<and> length (filter chunk_failed (logged st')) = Suc (length (filter chunk_failed (logged st)))"
  by (rule exI, rule conjI, rule for_chunks_Yield_fail_eq [OF assms]) simp

lemma for_chunks_result:
  "fst (for_chunks w ds_name fl url evs st) = (case raised evs of None \<Rightarrow> Inr () | Some e \<Rightarrow> Inl e)"
proof (induction evs arbitrary: st)
  case Nil
  show ?case by simp
next
  case (Cons ev evs)
  show ?case
  proof (cases ev)
    case (Yield x)
    obtain idx df where x: "x = (idx, df)" by (cases x)
    show ?thesis
    proof (cases "db_outcome w (db_calls st)")
      case None
      show ?thesis
        unfolding Yield x for_chunks_Yield_ok [OF None] by (simp add: Cons)
    next
      case (Some e)
      from for_chunks_Yield_fail [OF Some] obtain st'
        where "for_chunks w ds_name fl url (Yield (idx, df) # evs) st = for_chunks w ds_name fl url evs st'"
        by blast
      then show ?thesis
        unfolding Yield x by (simp add: Cons)
    qed
  next
    case (Emit r)
    then show ?thesis by (cases r) (simp add: Cons)
  next
    case (Raise e)
    then show ?thesis by simp
  qed
qed

text \<open>What a run of the loop leaves behind, whatever the database answers.\<close>

lemma for_chunks_state:
  "db_calls (snd (for_chunks w ds_name fl url evs st)) = db_calls st + length (yielded evs)
   \<and> tables (snd (for_chunks w ds_name fl url evs st)) =
       (tables st)((ds_name @ ''_test'') := tables st (ds_name @ ''_test'')
          @ concat (map to_records (accepted w (db_calls st) (map snd (yielded evs)))))"
proof (induction evs arbitrary: st)
  case Nil
  show ?case by simp
next
  case (Cons ev evs)
  show ?case
  proof (cases ev)
    case (Yield x)
    obtain idx df where x: "x = (idx, df)" by (cases x)
    show ?thesis
    proof (cases "db_outcome w (db_calls st)")
      case None
      let ?st' = "logger INFO (Chunk_processed idx ds_name)
          ((logger INFO (Processing_chunk idx (length (rows df)) ds_name (basename fl)) st)
             \<lparr>tables := (tables st)((ds_name @ ''_test'') := tables st (ds_name @ ''_test'') @ to_records df),
              db_calls := Suc (db_calls st)\<rparr>)"
      show ?thesis
        unfolding Yield x for_chunks_Yield_ok [OF None]
        using None Cons [of ?st'] by (simp add: fun_eq_iff)
    next
      case (Some e)
      from for_chunks_Yield_fail [OF Some] obtain st'
        where "for_chunks w ds_name fl url (Yield (idx, df) # evs) st = for_chunks w ds_name fl url evs st'"
          and "tables st' = tables st" and "db_calls st' = Suc (db_calls st)"
        by blast
      then show ?thesis
        unfolding Yield x using Some Cons [of st'] by simp
    qed
  next
    case (Emit r)
    obtain lvl m where r: "r = (lvl, m)" by (cases r)
    show ?thesis
      unfolding Emit r using Cons [of "logger lvl m st"] by simp
  next
    case (Raise e)
    then show ?thesis by simp
  qed
qed

lemma for_chunks_logged:
  assumes "quiet evs"
  shows "length (filter chunk_processed (logged (snd (for_chunks w ds_name fl url evs st)))) =
       length (filter chunk_processed (logged st))
         + length (accepted w (db_calls st) (map snd (yielded evs)))
   \<and> length (filter chunk_failed (logged (snd (for_chunks w ds_name fl url evs st))))
         + length (accepted w (db_calls st) (map snd (yielded evs))) =
       length (filter chunk_failed (logged st)) + length (yielded evs)"
  using assms
proof (induction evs arbitrary: st)
  case Nil
  show ?case by simp
next
  case (Cons ev evs)
  from Cons.prems have q: "quiet evs"
    by (simp add: quiet_def)
  show ?case
  proof (cases ev)
    case (Yield x)
    obtain idx df where x: "x = (idx, df)" by (cases x)
    show ?thesis
    proof (cases "db_outcome w (db_calls st)")
      case None
      let ?st' = "logger INFO (Chunk_processed idx ds_name)
          ((logger INFO (Processing_chunk idx (length (rows df)) ds_name (basename fl)) st)
             \<lparr>tables := (tables st)((ds_name @ ''_test'') := tables st (ds_name @ ''_test'') @ to_records df),
              db_calls := Suc (db_calls st)\<rparr>)"
      show ?thesis
        unfolding Yield x for_chunks_Yield_ok [OF None]
        using None Cons.IH [OF q, of ?st'] by simp
    next
      case (Some e)
      from for_chunks_Yield_fail [OF Some] obtain st'
        where "for_chunks w ds_name fl url (Yield (idx, df) # evs) st = for_chunks w ds_name fl url evs st'"
          and "db_calls st' = Suc (db_calls st)"
          and "filter chunk_processed (logged st') = filter chunk_processed (logged st)"
          and "length (filter chunk_failed (logged st')) = Suc (length (filter chunk_failed (logged st)))"
        by blast
      then show ?thesis
        unfolding Yield x using Some Cons.IH [OF q, of st'] by simp
    qed
  next
    case (Emit r)
    obtain lvl m where r: "r = (lvl, m)" by (cases r)
    from Cons.prems have "\<not> chunk_processed (lvl, m)" and "\<not> chunk_failed (lvl, m)"
      by (simp_all add: quiet_def Emit r)
    then show ?thesis
      unfolding Emit r using Cons.IH [OF q, of "logger lvl m st"] by simp
  next
    case (Raise e)
    then show ?thesis by simp
  qed
qed

lemma quiet_append: "quiet (xs @ ys) \<longleftrightarrow> quiet xs \<and> quiet ys"
  by (simp add: quiet_def)

lemma quiet_read_csv_except: "quiet (read_csv_except csv_path e)"
  by (simp add: quiet_def read_csv_except_def)

lemma quiet_yield_enumerated: "quiet (yield_enumerated csv_path k df_reader)"
proof (induction csv_path k df_reader rule: yield_enumerated.induct)
  case (1 csv_path idx)
  show ?case by (simp add: quiet_def)
next
  case (2 csv_path idx df df_reader)
  then show ?case by (simp add: quiet_def)
next
  case (3 csv_path idx e df_reader)
  show ?case by (simp add: quiet_read_csv_except)
qed

lemma quiet_Cons_Emit:
  "\<not> chunk_processed r \<Longrightarrow> \<not> chunk_failed r \<Longrightarrow> quiet evs \<Longrightarrow> quiet (Emit r # evs)"
  by (simp add: quiet_def)

lemma quiet_read_csv: "quiet (read_csv w csv_path schema ds_name chunksize)"
proof -
  have "quiet (map Emit (snd (get_column_names schema ds_name ''column_position'')))"
    by (simp add: get_column_names_def quiet_def Let_def split: sum.splits)
  then show ?thesis
    by (auto simp: read_csv_def quiet_append quiet_read_csv_except quiet_yield_enumerated
             intro: quiet_Cons_Emit split: prod.splits sum.splits)
qed

lemma accepted_append:
  "accepted w n (xs @ ys) = accepted w n xs @ accepted w (n + length xs) ys"
  by (induction xs arbitrary: n) auto

lemma for_files_result:
  "fst (for_files w schemas url ds_name chunksize fs st) =
     (case first_raised w schemas ds_name chunksize fs of None \<Rightarrow> Inr () | Some e \<Rightarrow> Inl e)"
proof (induction fs arbitrary: st)
  case Nil
  show ?case by simp
next
  case (Cons f fs)
  let ?st1 = "logger INFO (Starting_file f ds_name) st"
  let ?r = "for_chunks w ds_name f url (read_csv w f schemas ds_name chunksize) ?st1"
  have "fst ?r = (case raised (read_csv w f schemas ds_name chunksize) of None \<Rightarrow> Inr () | Some e \<Rightarrow> Inl e)"
    by (rule for_chunks_result)
  then show ?case
    using Cons [of "snd ?r"]
    by (cases ?r) (auto simp: Let_def split: option.splits sum.splits)
qed

lemma for_files_state:
  "db_calls (snd (for_files w schemas url ds_name chunksize fs st))
     = db_calls st + length (attempted_chunks w schemas ds_name chunksize fs)
   \<and> tables (snd (for_files w schemas url ds_name chunksize fs st)) =
       (tables st)((ds_name @ ''_test'') := tables st (ds_name @ ''_test'')
          @ concat (map to_records
              (accepted w (db_calls st) (attempted_chunks w schemas ds_name chunksize fs))))"
proof (induction fs arbitrary: st)
  case Nil
  show ?case by simp
next
  case (Cons f fs)
  let ?st1 = "logger INFO (Starting_file f ds_name) st"
  let ?evs = "read_csv w f schemas ds_name chunksize"
  let ?r = "for_chunks w ds_name f url ?evs ?st1"
  have res: "fst ?r = (case raised ?evs of None \<Rightarrow> Inr () | Some e \<Rightarrow> Inl e)"
    by (rule for_chunks_result)
  have st: "db_calls (snd ?r) = db_calls st + length (yielded ?evs)"
    "tables (snd ?r) = (tables st)((ds_name @ ''_test'') := tables st (ds_name @ ''_test'')
          @ concat (map to_records (accepted w (db_calls st) (map snd (yielded ?evs)))))"
    using for_chunks_state [of w ds_name f url ?evs ?st1] by simp_all
  show ?case
  proof (cases "raised ?evs")
    case None
    with res have "for_files w schemas url ds_name chunksize (f # fs) st
        = for_files w schemas url ds_name chunksize fs (snd ?r)"
      by (cases ?r) (simp add: Let_def)
    with None st Cons [of "snd ?r"] show ?thesis
      by (simp add: file_chunks_def accepted_append fun_eq_iff)
  next
    case (Some e)
    with res have "for_files w schemas url ds_name chunksize (f # fs) st = (Inl e, snd ?r)"
      by (cases ?r) (simp add: Let_def)
    with Some st show ?thesis
      by (simp add: file_chunks_def)
  qed
qed

lemma for_files_logged:
  "length (filter chunk_processed (logged (snd (for_files w schemas url ds_name chunksize fs st)))) =
       length (filter chunk_processed (logged st))
         + length (accepted w (db_calls st) (attempted_chunks w schemas ds_name chunksize fs))
   \<and> length (filter chunk_failed (logged (snd (for_files w schemas url ds_name chunksize fs st))))
         + length (accepted w (db_calls st) (attempted_chunks w schemas ds_name chunksize fs)) =
       length (filter chunk_failed (logged st))
         + length (attempted_chunks w schemas ds_name chunksize fs)"
proof (induction fs arbitrary: st)
  case Nil
  show ?case by simp
next
  case (Cons f fs)
  let ?st1 = "logger INFO (Starting_file f ds_name) st"
  let ?evs = "read_csv w f schemas ds_name chunksize"
  let ?r = "for_chunks w ds_name f url ?evs ?st1"
  have res: "fst ?r = (case raised ?evs of None \<Rightarrow> Inr () | Some e \<Rightarrow> Inl e)"
    by (rule for_chunks_result)
  have calls: "db_calls (snd ?r) = db_calls st + length (yielded ?evs)"
    using for_chunks_state [of w ds_name f url ?evs ?st1] by simp
  have lg: "length (filter chunk_processed (logged (snd ?r))) =
       length (filter chunk_processed (logged st))
         + length (accepted w (db_calls st) (map snd (yielded ?evs)))"
    "length (filter chunk_failed (logged (snd ?r)))
         + length (accepted w (db_calls st) (map snd (yielded ?evs))) =
       length (filter chunk_failed (logged st)) + length (yielded ?evs)"
    using for_chunks_logged [where evs = ?evs and w = w and ds_name = ds_name and fl = f
        and url = url and st = ?st1, OF quiet_read_csv]
    by simp_all
  show ?case
  proof (cases "raised ?evs")
    case None
    with res have "for_files w schemas url ds_name chunksize (f # fs) st
        = for_files w schemas url ds_name chunksize fs (snd ?r)"
      by (cases ?r) (simp add: Let_def)
    with None calls lg Cons [of "snd ?r"] show ?thesis
      by (simp add: file_chunks_def accepted_append)
  next
    case (Some e)
    with res have "for_files w schemas url ds_name chunksize (f # fs) st = (Inl e, snd ?r)"
      by (cases ?r) (simp add: Let_def)
    with Some lg show ?thesis
      by (simp add: file_chunks_def)
  qed
qed


lemma readable_attempted:
  "readable w schemas ds_name chunksize fs \<Longrightarrow>
     attempted_chunks w schemas ds_name chunksize fs = files_chunks w schemas ds_name chunksize fs"
  by (induction fs) (auto simp: readable_def files_chunks_def)

text \<open>The loader on a dataset that has files.\<close>

lemma db_loader_files:
  assumes "dataset_files w src_base_dir ds_name = fs" and "fs \<noteq> []"
  shows "fst (db_loader w src_base_dir schemas url ds_name chunksize st) =
           (case first_raised w schemas ds_name chunksize fs of None \<Rightarrow> Inr () | Some e \<Rightarrow> Inl e)"
    and "db_calls (snd (db_loader w src_base_dir schemas url ds_name chunksize st))
           = db_calls st + length (attempted_chunks w schemas ds_name chunksize fs)"
    and "tables (snd (db_loader w src_base_dir schemas url ds_name chunksize st)) =
           (tables st)((ds_name @ ''_test'') := tables st (ds_name @ ''_test'')
              @ concat (map to_records
                  (accepted w (db_calls st) (attempted_chunks w schemas ds_name chunksize fs))))"
    and "length (filter chunk_processed (logged (snd (db_loader w src_base_dir schemas url ds_name chunksize st)))) =
           length (filter chunk_processed (logged st))
             + length (accepted w (db_calls st) (attempted_chunks w schemas ds_name chunksize fs))"
    and "length (filter chunk_failed (logged (snd (db_loader w src_base_dir schemas url ds_name chunksize st))))
             + length (accepted w (db_calls st) (attempted_chunks w schemas ds_name chunksize fs)) =
           length (filter chunk_failed (logged st))
             + length (attempted_chunks w schemas ds_name chunksize fs)"
proof -
  let ?st1 = "logger INFO (Searching_files ds_name src_base_dir) st"
  let ?r = "for_files w schemas url ds_name chunksize fs ?st1"
  have eq: "db_loader w src_base_dir schemas url ds_name chunksize st =
      (case ?r of (Inl e, st2) \<Rightarrow> (Inl e, st2)
               | (Inr u, st2) \<Rightarrow> (Inr (), logger INFO (Finished_dataset ds_name) st2))"
    using assms by (simp add: db_loader_def dataset_files_def Let_def)
  have res: "fst ?r = (case first_raised w schemas ds_name chunksize fs of None \<Rightarrow> Inr () | Some e \<Rightarrow> Inl e)"
    by (rule for_files_result)
  note st = for_files_state [of w schemas url ds_name chunksize fs ?st1]
  note lg = for_files_logged [of w schemas url ds_name chunksize fs ?st1]
  show "fst (db_loader w src_base_dir schemas url ds_name chunksize st) =
           (case first_raised w schemas ds_name chunksize fs of None \<Rightarrow> Inr () | Some e \<Rightarrow> Inl e)"
    using res unfolding eq by (cases ?r) (auto split: sum.splits option.splits)
  show "db_calls (snd (db_loader w src_base_dir schemas url ds_name chunksize st))
           = db_calls st + length (attempted_chunks w schemas ds_name chunksize fs)"
    using st unfolding eq by (cases ?r) (auto split: sum.splits)
  show "tables (snd (db_loader w src_base_dir schemas url ds_name chunksize st)) =
           (tables st)((ds_name @ ''_test'') := tables st (ds_name @ ''_test'')
              @ concat (map to_records
                  (accepted w (db_calls st) (attempted_chunks w schemas ds_name chunksize fs))))"
    using st unfolding eq by (cases ?r) (auto split: sum.splits)
  show "length (filter chunk_processed (logged (snd (db_loader w src_base_dir schemas url ds_name chunksize st)))) =
           length (filter chunk_processed (logged st))
             + length (accepted w (db_calls st) (attempted_chunks w schemas ds_name chunksize fs))"
    using lg unfolding eq by (cases ?r) (auto split: sum.splits)
  show "length (filter chunk_failed (logged (snd (db_loader w src_base_dir schemas url ds_name chunksize st))))
             + length (accepted w (db_calls st) (attempted_chunks w schemas ds_name chunksize fs)) =
           length (filter chunk_failed (logged st))
             + length (attempted_chunks w schemas ds_name chunksize fs)"
    using lg unfolding eq by (cases ?r) (auto split: sum.splits)
qed

section \<open>Examples and the loader without files\<close>

lemma orders_columns:
  "get_column_names orders_catalog ''orders'' ''column_position''
     = (Inr [JStr ''name'', JStr ''amount'', JStr ''id''], [])"
  by (simp add: orders_catalog_def get_column_names_def getitem_def sorted_by_key_def)

theorem get_column_names_sorted_witness:
  "map_of orders_catalog ''orders'' = Some (snd (hd orders_catalog))
   \<and> valid_descriptors (snd (hd orders_catalog)) ''column_position''
   \<and> get_column_names orders_catalog ''orders'' ''column_position''
       = (Inr [JStr ''name'', JStr ''amount'', JStr ''id''], [])
   \<and> sorted_wrt (<) (map (position_of ''column_position'')
         (sort_key (position_of ''column_position'') (snd (hd orders_catalog))))"
proof -
  have h1: "map_of orders_catalog ''orders'' = Some (snd (hd orders_catalog))"
    by (simp add: orders_catalog_def)
  have h2: "valid_descriptors (snd (hd orders_catalog)) ''column_position''"
    by (simp add: orders_catalog_def valid_descriptors_def)
  have d: "distinct (map (position_of ''column_position'') (snd (hd orders_catalog)))"
    by (simp add: orders_catalog_def position_of_def)
  from get_column_names_sorted [OF h1 h2] d h1 h2 orders_columns show ?thesis
    by (simp add: Let_def)
qed

theorem read_csv_chunks_witness:
  "fst (get_column_names orders_catalog ''orders'' ''column_position'')
     = Inr [JStr ''name'', JStr ''amount'', JStr ''id'']
   \<and> pd_open orders_world ''/data/orders/part-00000'' [JStr ''name'', JStr ''amount'', JStr ''id'']
       = Inr orders_lines
   \<and> list_all (\<lambda>fields. length fields = length [JStr ''name'', JStr ''amount'', JStr ''id'']) orders_lines
   \<and> (0::int) < 1
   \<and> length (yielded (read_csv orders_world ''/data/orders/part-00000'' orders_catalog ''orders'' 1)) = 2
   \<and> map fst (yielded (read_csv orders_world ''/data/orders/part-00000'' orders_catalog ''orders'' 1)) = [0, 1]
   \<and> concat (map (\<lambda>(idx, df). rows df)
         (yielded (read_csv orders_world ''/data/orders/part-00000'' orders_catalog ''orders'' 1)))
       = orders_lines"
proof -
  let ?names = "[JStr ''name'', JStr ''amount'', JStr ''id'']"
  have h1: "fst (get_column_names orders_catalog ''orders'' ''column_position'') = Inr ?names"
    by (simp add: orders_columns)
  have h2: "pd_open orders_world ''/data/orders/part-00000'' ?names = Inr orders_lines"
    by (simp add: orders_world_def)
  have h3: "\<forall>fields\<in>set orders_lines. length fields = length ?names"
    by (simp add: orders_lines_def)
  have h4: "(0::int) < 1"
    by simp
  have n: "(length orders_lines + nat 1 - 1) div nat 1 = 2"
    by (simp add: orders_lines_def)
  have u: "[0..<2] = [0, 1::nat]"
    by (simp add: upt_rec)
  from read_csv_chunks [OF h1 h2 h3 h4] have
    "length (yielded (read_csv orders_world ''/data/orders/part-00000'' orders_catalog ''orders'' 1)) = 2
     \<and> map fst (yielded (read_csv orders_world ''/data/orders/part-00000'' orders_catalog ''orders'' 1)) = [0..<2]
     \<and> concat (map (\<lambda>(idx, df). rows df)
         (yielded (read_csv orders_world ''/data/orders/part-00000'' orders_catalog ''orders'' 1)))
       = orders_lines"
    unfolding Let_def n by blast
  with h1 h2 h3 u show ?thesis
    by (simp add: list_all_iff)
qed

text \<open>
  C5: when no file matches \<^verbatim>\<open>part-*\<close> under the dataset's directory, the Dataset Loader
  fails with \<^verbatim>\<open>ValueError("No files found for ...")\<close>, the error the spec calls NoSourceFiles.
  No table changes and no call reaches the database: the error is raised before any file
  is read; the only effect is the two log records.
\<close>

theorem db_loader_no_source_files:
  assumes "glob w (src_base_dir @ ''/'' @ ds_name @ ''/part-*'') = []"
  shows "fst (db_loader w src_base_dir schemas conn_url ds_name chunksize st)
           = Inl (Exn ValueError (''No files found for '' @ ds_name) None)
       \<and> tables (snd (db_loader w src_base_dir schemas conn_url ds_name chunksize st)) = tables st
       \<and> db_calls (snd (db_loader w src_base_dir schemas conn_url ds_name chunksize st)) = db_calls st
       \<and> logged (snd (db_loader w src_base_dir schemas conn_url ds_name chunksize st))
           = logged st @ [(INFO, Searching_files ds_name src_base_dir),
                          (ERROR, No_files_found ds_name src_base_dir)]"
  using assms by (simp add: db_loader_def Let_def)

theorem db_loader_no_source_files_witness:
  "glob orders_world (''/data'' @ ''/'' @ ''customers'' @ ''/part-*'') = []
   \<and> db_loader orders_world ''/data'' orders_catalog ''url'' ''customers'' 10000 state0
       = (Inl (Exn ValueError ''No files found for customers'' None),
          state0\<lparr>logged := [(INFO, Searching_files ''customers'' ''/data''),
                             (ERROR, No_files_found ''customers'' ''/data'')]\<rparr>)"
proof -
  have h: "glob orders_world (''/data'' @ ''/'' @ ''customers'' @ ''/part-*'') = []"
    by (simp add: orders_world_def)
  have "db_loader orders_world ''/data'' orders_catalog ''url'' ''customers'' 10000 state0
       = (Inl (Exn ValueError ''No files found for customers'' None),
          state0\<lparr>logged := [(INFO, Searching_files ''customers'' ''/data''),
                             (ERROR, No_files_found ''customers'' ''/data'')]\<rparr>)"
    using db_loader_no_source_files [OF h, of orders_catalog "''url''" 10000 state0]
    by (simp add: prod_eq_iff state0_def state.equality)
  with h show ?thesis
    by simp
qed

section \<open>Failure isolation in the Dataset Loader\<close>

lemma accepted_all:
  "\<forall>k<length xs. db_outcome w (n + k) = None \<Longrightarrow> accepted w n xs = xs"
proof (induction xs arbitrary: n)
  case Nil
  show ?case by simp
next
  case (Cons x xs)
  from Cons.prems have "db_outcome w n = None"
    by force
  moreover have "\<forall>k<length xs. db_outcome w (Suc n + k) = None"
  proof (intro allI impI)
    fix k assume "k < length xs"
    then have "Suc k < length (x # xs)" by simp
    with Cons.prems have "db_outcome w (n + Suc k) = None" by blast
    then show "db_outcome w (Suc n + k) = None" by simp
  qed
  ultimately show ?case
    using Cons.IH [of "Suc n"] by simp
qed



















section \<open>Errors of the reader and the empty selector\<close>

lemma raised_read_csv_except:
  "raised (read_csv_except csv_path e :: 'a event list) =
     Some (if exn_class e = FileNotFoundError
           then Exn FileNotFoundError (''File not found: '' @ csv_path) (Some e)
           else if exn_class e = ParserError
           then Exn ParserError ''Unable to parse data to dataframe: '' (Some e)
           else Exn Exception ''An unhandled exception occurred while reading data: '' (Some e))"
  by (simp add: read_csv_except_def)

lemma yielded_read_csv_except [simp]: "yielded (read_csv_except csv_path e) = []"
  by (simp add: read_csv_except_def)

lemma raised_yield_enumerated:
  "raised (yield_enumerated csv_path k df_reader) = Some e \<Longrightarrow>
     exn_class e = FileNotFoundError \<or> exn_class e = ParserError \<or> exn_class e = Exception"
proof (induction csv_path k df_reader rule: yield_enumerated.induct)
  case (1 csv_path idx)
  then show ?case by simp
next
  case (2 csv_path idx df df_reader)
  then show ?case by simp
next
  case (3 csv_path idx e0 df_reader)
  then show ?case
    by (auto simp: raised_read_csv_except split: if_splits)
qed

lemma get_column_names_error_class:
  assumes "fst (get_column_names schemas ds_name sorting_key) = Inl e"
  shows "exn_class e = KeyError \<or> exn_class e = TypeError"
proof (cases "map_of schemas ds_name")
  case None
  with assms show ?thesis
    by (auto simp: get_column_names_cases)
next
  case (Some descriptors)
  with assms show ?thesis
    by (auto simp: get_column_names_cases sorted_by_key_getitem split: if_splits sum.splits)
qed

lemma yield_enumerated_until_error:
  "yield_enumerated csv_path k (map Inr dfs @ Inl e0 # df_reader)
     = map Yield (zip [k..<k + length dfs] dfs) @ read_csv_except csv_path e0"
proof (induction dfs arbitrary: k)
  case Nil
  show ?case by simp
next
  case (Cons df dfs)
  have "[k..<k + length (df # dfs)] = k # [Suc k..<Suc k + length dfs]"
    by (simp add: upt_rec)
  with Cons [of "Suc k"] show ?case
    by simp
qed

text \<open>
  C10: whatever the reader raises has one of three classes: \<^verbatim>\<open>FileNotFoundError\<close>,
  \<^verbatim>\<open>ParserError\<close> or the plain \<^verbatim>\<open>Exception\<close>. An error of column resolution (the
  \<^verbatim>\<open>KeyError\<close> of a missing schema field, raised inside the reader before any chunk) is
  re-raised as \<^verbatim>\<open>Exception\<close> with the fixed text "An unhandled exception occurred while
  reading data", and so is any error of opening the file whose class is neither
  \<^verbatim>\<open>FileNotFoundError\<close> nor \<^verbatim>\<open>ParserError\<close>: by its class the caller cannot tell a
  schema error from any other unexpected read failure. The same holds during the
  iteration itself: when the underlying reader, after any number of good chunks, fails
  with an error of another class, the loop has yielded those chunks with their indices,
  logs the failure as critical and raises \<^verbatim>\<open>Exception\<close> with the same fixed text and
  the error as its cause; and what \<^verbatim>\<open>read_csv\<close> yields and raises, once the columns are
  resolved and the file is open, is what this loop yields and raises.
\<close>

theorem read_csv_generic_exception:
  "(\<forall>e. raised (read_csv w csv_path schema ds_name chunksize) = Some e \<longrightarrow>
        exn_class e = FileNotFoundError \<or> exn_class e = ParserError \<or> exn_class e = Exception)
   \<and> (\<forall>e0. fst (get_column_names schema ds_name ''column_position'') = Inl e0 \<longrightarrow>
        yielded (read_csv w csv_path schema ds_name chunksize) = []
        \<and> raised (read_csv w csv_path schema ds_name chunksize)
            = Some (Exn Exception ''An unhandled exception occurred while reading data: '' (Some e0)))
   \<and> (\<forall>names e0. fst (get_column_names schema ds_name ''column_position'') = Inr names
        \<and> pd_read_csv w csv_path names chunksize = Inl e0
        \<and> exn_class e0 \<noteq> FileNotFoundError \<and> exn_class e0 \<noteq> ParserError \<longrightarrow>
        yielded (read_csv w csv_path schema ds_name chunksize) = []
        \<and> raised (read_csv w csv_path schema ds_name chunksize)
            = Some (Exn Exception ''An unhandled exception occurred while reading data: '' (Some e0)))
   \<and> (\<forall>idx dfs e0 df_reader.
        exn_class e0 \<noteq> FileNotFoundError \<and> exn_class e0 \<noteq> ParserError \<longrightarrow>
        yield_enumerated csv_path idx (map Inr dfs @ Inl e0 # df_reader)
          = map Yield (zip [idx..<idx + length dfs] dfs)
            @ [Emit (CRITICAL, Unhandled_read csv_path e0),
               Raise (Exn Exception ''An unhandled exception occurred while reading data: ''
                        (Some e0))])
   \<and> (\<forall>names df_reader. fst (get_column_names schema ds_name ''column_position'') = Inr names
        \<and> pd_read_csv w csv_path names chunksize = Inr df_reader \<longrightarrow>
        yielded (read_csv w csv_path schema ds_name chunksize)
          = yielded (yield_enumerated csv_path 0 df_reader)
        \<and> raised (read_csv w csv_path schema ds_name chunksize)
          = raised (yield_enumerated csv_path 0 df_reader))"
proof (intro conjI allI impI)
  fix e
  assume r: "raised (read_csv w csv_path schema ds_name chunksize) = Some e"
  obtain res lg where g: "get_column_names schema ds_name ''column_position'' = (res, lg)"
    by (cases "get_column_names schema ds_name ''column_position''")
  show "exn_class e = FileNotFoundError \<or> exn_class e = ParserError \<or> exn_class e = Exception"
  proof (cases res)
    case (Inl e0)
    with r g show ?thesis
      by (auto simp: read_csv_def raised_read_csv_except split: if_splits)
  next
    case (Inr names)
    show ?thesis
    proof (cases "pd_read_csv w csv_path names chunksize")
      case (Inl e0)
      with r g Inr show ?thesis
        by (auto simp: read_csv_def raised_read_csv_except split: if_splits)
    next
      case df_reader: (Inr df_reader)
      with r g Inr have "raised (yield_enumerated csv_path 0 df_reader) = Some e"
        by (simp add: read_csv_def)
      then show ?thesis
        by (rule raised_yield_enumerated)
    qed
  qed
next
  fix e0
  assume a: "fst (get_column_names schema ds_name ''column_position'') = Inl e0"
  then obtain lg where g: "get_column_names schema ds_name ''column_position'' = (Inl e0, lg)"
    by (cases "get_column_names schema ds_name ''column_position''") auto
  from get_column_names_error_class [OF a]
  have c: "exn_class e0 \<noteq> FileNotFoundError" "exn_class e0 \<noteq> ParserError"
    by auto
  show "yielded (read_csv w csv_path schema ds_name chunksize) = []"
    by (simp add: read_csv_def g)
  show "raised (read_csv w csv_path schema ds_name chunksize)
            = Some (Exn Exception ''An unhandled exception occurred while reading data: '' (Some e0))"
    using c by (simp add: read_csv_def g raised_read_csv_except)
next
  fix names e0
  assume a: "fst (get_column_names schema ds_name ''column_position'') = Inr names
        \<and> pd_read_csv w csv_path names chunksize = Inl e0
        \<and> exn_class e0 \<noteq> FileNotFoundError \<and> exn_class e0 \<noteq> ParserError"
  then obtain lg where g: "get_column_names schema ds_name ''column_position'' = (Inr names, lg)"
    by (cases "get_column_names schema ds_name ''column_position''") auto
  show "yielded (read_csv w csv_path schema ds_name chunksize) = []"
    using a by (simp add: read_csv_def g)
  show "raised (read_csv w csv_path schema ds_name chunksize)
            = Some (Exn Exception ''An unhandled exception occurred while reading data: '' (Some e0))"
    using a by (simp add: read_csv_def g raised_read_csv_except)
next
  fix idx dfs e0 df_reader
  assume "exn_class e0 \<noteq> FileNotFoundError \<and> exn_class e0 \<noteq> ParserError"
  then show "yield_enumerated csv_path idx (map Inr dfs @ Inl e0 # df_reader)
          = map Yield (zip [idx..<idx + length dfs] dfs)
            @ [Emit (CRITICAL, Unhandled_read csv_path e0),
               Raise (Exn Exception ''An unhandled exception occurred while reading data: ''
                        (Some e0))]"
    by (simp add: yield_enumerated_until_error read_csv_except_def)
next
  fix names df_reader
  assume a: "fst (get_column_names schema ds_name ''column_position'') = Inr names
        \<and> pd_read_csv w csv_path names chunksize = Inr df_reader"
  then obtain lg where g: "get_column_names schema ds_name ''column_position'' = (Inr names, lg)"
    by (cases "get_column_names schema ds_name ''column_position''") auto
  show "yielded (read_csv w csv_path schema ds_name chunksize)
          = yielded (yield_enumerated csv_path 0 df_reader)"
    using a by (simp add: read_csv_def g)
  show "raised (read_csv w csv_path schema ds_name chunksize)
          = raised (yield_enumerated csv_path 0 df_reader)"
    using a by (simp add: read_csv_def g)
qed

theorem read_csv_generic_exception_witness:
  "fst (get_column_names orders_catalog ''customers'' ''column_position'')
     = Inl (Exn KeyError ''customers'' None)
   \<and> yielded (read_csv orders_world ''/data/customers/part-00000'' orders_catalog ''customers'' 10000) = []
   \<and> raised (read_csv orders_world ''/data/customers/part-00000'' orders_catalog ''customers'' 10000)
       = Some (Exn Exception ''An unhandled exception occurred while reading data: ''
                 (Some (Exn KeyError ''customers'' None)))
   \<and> exn_class (Exn (Other ''UnicodeDecodeError'') ''invalid start byte'' None) = Other ''UnicodeDecodeError''
   \<and> yield_enumerated ''/data/orders/part-00000'' 0
         [Inr \<lparr>columns = [JStr ''name''], rows = [[''a'']]\<rparr>,
          Inl (Exn (Other ''UnicodeDecodeError'') ''invalid start byte'' None),
          Inr \<lparr>columns = [JStr ''name''], rows = [[''c'']]\<rparr>]
       = [Yield (0, \<lparr>columns = [JStr ''name''], rows = [[''a'']]\<rparr>),
          Emit (CRITICAL, Unhandled_read ''/data/orders/part-00000''
                  (Exn (Other ''UnicodeDecodeError'') ''invalid start byte'' None)),
          Raise (Exn Exception ''An unhandled exception occurred while reading data: ''
                   (Some (Exn (Other ''UnicodeDecodeError'') ''invalid start byte'' None)))]"
proof -
  let ?df = "\<lparr>columns = [JStr ''name''], rows = [[''a'']]\<rparr>"
  let ?e0 = "Exn (Other ''UnicodeDecodeError'') ''invalid start byte'' None"
  let ?rest = "[Inr \<lparr>columns = [JStr ''name''], rows = [[''c'']]\<rparr>] :: (exn + dataframe) list"
  note T = read_csv_generic_exception
    [of orders_world "''/data/customers/part-00000''" orders_catalog "''customers''" 10000]
  note U = read_csv_generic_exception
    [of orders_world "''/data/orders/part-00000''" orders_catalog "''orders''" 10000]
  have h: "fst (get_column_names orders_catalog ''customers'' ''column_position'')
     = Inl (Exn KeyError ''customers'' None)"
    by (simp add: get_column_names_def getitem_def orders_catalog_def)
  from T h have 1:
    "yielded (read_csv orders_world ''/data/customers/part-00000'' orders_catalog ''customers'' 10000) = []
     \<and> raised (read_csv orders_world ''/data/customers/part-00000'' orders_catalog ''customers'' 10000)
       = Some (Exn Exception ''An unhandled exception occurred while reading data: ''
                 (Some (Exn KeyError ''customers'' None)))"
    by blast
  have c: "exn_class ?e0 \<noteq> FileNotFoundError \<and> exn_class ?e0 \<noteq> ParserError"
    by simp
  from U have "\<forall>idx dfs e0 df_reader.
        exn_class e0 \<noteq> FileNotFoundError \<and> exn_class e0 \<noteq> ParserError \<longrightarrow>
        yield_enumerated ''/data/orders/part-00000'' idx (map Inr dfs @ Inl e0 # df_reader)
          = map Yield (zip [idx..<idx + length dfs] dfs)
            @ [Emit (CRITICAL, Unhandled_read ''/data/orders/part-00000'' e0),
               Raise (Exn Exception ''An unhandled exception occurred while reading data: ''
                        (Some e0))]"
    by blast
  then have "yield_enumerated ''/data/orders/part-00000'' 0 (map Inr [?df] @ Inl ?e0 # ?rest)
          = map Yield (zip [0..<0 + length [?df]] [?df])
            @ [Emit (CRITICAL, Unhandled_read ''/data/orders/part-00000'' ?e0),
               Raise (Exn Exception ''An unhandled exception occurred while reading data: ''
                        (Some ?e0))]"
    using c by blast
  then have 2: "yield_enumerated ''/data/orders/part-00000'' 0 [Inr ?df, Inl ?e0,
          Inr \<lparr>columns = [JStr ''name''], rows = [[''c'']]\<rparr>]
       = [Yield (0, ?df),
          Emit (CRITICAL, Unhandled_read ''/data/orders/part-00000'' ?e0),
          Raise (Exn Exception ''An unhandled exception occurred while reading data: '' (Some ?e0))]"
    by simp
  from h 1 2 show ?thesis
    by simp
qed

text \<open>
  C9: the empty string and the empty list select what an absent selector selects. With
  all six environment variables set and a catalog that loads, \<^verbatim>\<open>main\<close> called with the
  empty string logs that no names were given and runs the Dataset Loader over the dataset
  names of the catalog, in the order of the catalog; it never loads a dataset named "".
\<close>

theorem main_empty_selector:
  "main w (PyStr []) chunksize st = main w PyNone chunksize st
   \<and> main w (PyList []) chunksize st = main w PyNone chunksize st
   \<and> (missing_variable w = None
        \<and> schema_file w (path_join (getenv w ''SRC_BASE_DIR'') ''schemas.json'') = Inr schemas \<longrightarrow>
        main w (PyStr []) chunksize st =
          for_datasets w (getenv w ''SRC_BASE_DIR'') schemas
            (''postgresql://'' @ getenv w ''DB_USER'' @ '':'' @ getenv w ''DB_PASS''
               @ ''@'' @ getenv w ''DB_HOST'' @ '':'' @ getenv w ''DB_PORT''
               @ ''/'' @ getenv w ''DB_NAME'')
            chunksize (map fst schemas)
            (logger INFO (Loading_all (map fst schemas))
               (logger INFO
                  (Schema_loaded (path_join (getenv w ''SRC_BASE_DIR'') ''schemas.json'')) st)))"
  by (simp add: main_def Let_def split: option.splits sum.splits)

section \<open>Round trip\<close>

lemma to_records_chunks:
  "concat (map to_records (map (\<lambda>c. \<lparr>columns = names, rows = c\<rparr>) cs))
     = map (zip names) (concat cs)"
  by (induction cs) (simp_all add: to_records_def)

lemma first_raised_readable:
  "first_raised w schemas ds_name chunksize fs = None \<Longrightarrow> readable w schemas ds_name chunksize fs"
  by (induction fs) (auto simp: readable_def split: option.splits)

lemma accepted_always:
  "\<forall>n. db_outcome w n = None \<Longrightarrow> accepted w n xs = xs"
  by (rule accepted_all) simp

text \<open>The rows a file contributes when it opens and every line has the right number of fields.\<close>

lemma file_chunks_good:
  assumes "fst (get_column_names schemas ds_name ''column_position'') = Inr names"
    and "pd_open w f names = Inr lines"
    and "\<forall>fields\<in>set lines. length fields = length names"
    and "0 < chunksize"
  shows "concat (map to_records (file_chunks w schemas ds_name chunksize f)) = map (zip names) lines"
    and "raised (read_csv w f schemas ds_name chunksize) = None"
proof -
  let ?cs = "chunks_of (nat chunksize) lines"
  have "file_chunks w schemas ds_name chunksize f = map (\<lambda>c. \<lparr>columns = names, rows = c\<rparr>) ?cs"
    unfolding file_chunks_def read_csv_good(1) [OF assms] by simp
  then have "concat (map to_records (file_chunks w schemas ds_name chunksize f))
      = map (zip names) (concat ?cs)"
    by (simp only: to_records_chunks)
  moreover from assms(4) have "concat ?cs = lines"
    by (intro concat_chunks_of) simp
  ultimately show "concat (map to_records (file_chunks w schemas ds_name chunksize f)) = map (zip names) lines"
    by simp
  show "raised (read_csv w f schemas ds_name chunksize) = None"
    by (rule read_csv_good(2) [OF assms])
qed

text \<open>
  C3: round trip. The catalog gives the dataset the columns id, name, amount at positions
  2, 0, 1; its one source file has the two lines a,1,100 and b,2,200; the chunk size is
  positive and the database accepts the writes. Then the resolved column order is name,
  amount, id, the loader returns normally, and the destination table gains exactly the
  two rows {name: a, amount: 1, id: 100} and {name: b, amount: 2, id: 200}, the values
  being the text of the fields.
\<close>

theorem load_round_trip:
  assumes "map_of schemas ds_name = Some [d_id, d_name, d_amount]"
    and "map_of d_id ''column_name'' = Some (JStr ''id'')"
    and "map_of d_id ''column_position'' = Some (JInt 2)"
    and "map_of d_name ''column_name'' = Some (JStr ''name'')"
    and "map_of d_name ''column_position'' = Some (JInt 0)"
    and "map_of d_amount ''column_name'' = Some (JStr ''amount'')"
    and "map_of d_amount ''column_position'' = Some (JInt 1)"
    and "dataset_files w src_base_dir ds_name = [f]"
    and "pd_open w f [JStr ''name'', JStr ''amount'', JStr ''id'']
           = Inr [[''a'', ''1'', ''100''], [''b'', ''2'', ''200'']]"
    and "0 < chunksize"
    and "\<forall>n. db_outcome w n = None"
  shows "fst (get_column_names schemas ds_name ''column_position'')
           = Inr [JStr ''name'', JStr ''amount'', JStr ''id'']
       \<and> fst (db_loader w src_base_dir schemas url ds_name chunksize st) = Inr ()
       \<and> tables (snd (db_loader w src_base_dir schemas url ds_name chunksize st))
           = (tables st)((ds_name @ ''_test'') := tables st (ds_name @ ''_test'') @
               [[(JStr ''name'', ''a''), (JStr ''amount'', ''1''), (JStr ''id'', ''100'')],
                [(JStr ''name'', ''b''), (JStr ''amount'', ''2''), (JStr ''id'', ''200'')]])"
proof -
  let ?names = "[JStr ''name'', JStr ''amount'', JStr ''id'']"
  let ?lines = "[[''a'', ''1'', ''100''], [''b'', ''2'', ''200'']]"
  let ?key = "''column_position''"
  have v: "valid_descriptors [d_id, d_name, d_amount] ?key"
    using assms(2-7) by (simp add: valid_descriptors_def)
  have p: "position_of ?key d_id = 2" "position_of ?key d_name = 0" "position_of ?key d_amount = 1"
    using assms(3,5,7) by (simp_all add: position_of_def)
  have s: "sort_key (position_of ?key) [d_id, d_name, d_amount] = [d_name, d_amount, d_id]"
    by (simp add: p)
  have sb: "sorted_by_key (\<lambda>d. getitem d ?key) [d_id, d_name, d_amount] = Inr [d_name, d_amount, d_id]"
    by (simp only: sorted_by_key_valid [OF v] s)
  have g: "get_column_names schemas ds_name ?key = (Inr ?names, [])"
    by (simp add: get_column_names_cases assms(1) sb assms(2,4,6))
  then have n: "fst (get_column_names schemas ds_name ?key) = Inr ?names"
    by simp
  have wf: "\<forall>fields\<in>set ?lines. length fields = length ?names"
    by simp
  note F = file_chunks_good [OF n assms(9) wf assms(10)]
  have ne: "[f] \<noteq> []"
    by simp
  note L = db_loader_files [OF assms(8) ne, of schemas url chunksize st]
  have fr: "first_raised w schemas ds_name chunksize [f] = None"
    using F(2) by simp
  have at: "attempted_chunks w schemas ds_name chunksize [f] = file_chunks w schemas ds_name chunksize f"
    using F(2) by simp
  have 1: "fst (db_loader w src_base_dir schemas url ds_name chunksize st) = Inr ()"
    using L(1) fr by simp
  have 2: "tables (snd (db_loader w src_base_dir schemas url ds_name chunksize st))
           = (tables st)((ds_name @ ''_test'') := tables st (ds_name @ ''_test'') @ map (zip ?names) ?lines)"
    using L(3) by (simp only: at accepted_always [OF assms(11)] F(1))
  from n 1 2 show ?thesis
    by simp
qed

lemma orders_load:
  "fst (db_loader orders_world ''/data'' orders_catalog url ''orders'' 10000 st) = Inr ()
   \<and> tables (snd (db_loader orders_world ''/data'' orders_catalog url ''orders'' 10000 st))
       = (tables st)(''orders_test'' := tables st ''orders_test'' @ orders_rows)
   \<and> files_chunks orders_world orders_catalog ''orders'' 10000
         (dataset_files orders_world ''/data'' ''orders'')
       = [\<lparr>columns = [JStr ''name'', JStr ''amount'', JStr ''id''], rows = orders_lines\<rparr>]"
proof -
  let ?names = "[JStr ''name'', JStr ''amount'', JStr ''id'']"
  let ?f = "''/data/orders/part-00000''"
  have fs: "dataset_files orders_world ''/data'' ''orders'' = [?f]"
    by (simp add: dataset_files_def orders_world_def)
  have c: "chunks_of 10000 orders_lines = [orders_lines]"
    by (simp add: orders_lines_def chunks_of_step)
  have r: "read_csv orders_world ?f orders_catalog ''orders'' 10000 =
     [Emit (DEBUG, Reading_csv ?f ?names), Yield (0, \<lparr>columns = ?names, rows = orders_lines\<rparr>)]"
    by (simp add: read_csv_def orders_columns pd_read_csv_def orders_world_def c parse_chunk_def)
       (simp add: orders_lines_def)
  have ne: "[?f] \<noteq> []"
    by simp
  note L = db_loader_files [OF fs ne, of orders_catalog url 10000 st]
  have o: "db_outcome orders_world n = None" for n
    by (simp add: orders_world_def)
  from L(1) L(3) show ?thesis
    by (simp add: r fs o file_chunks_def files_chunks_def to_records_def orders_rows_def orders_lines_def)
qed

theorem load_round_trip_witness:
  "map_of orders_catalog ''orders'' =
     Some [[(''column_name'', JStr ''id''), (''column_position'', JInt 2)],
           [(''column_name'', JStr ''name''), (''column_position'', JInt 0)],
           [(''column_name'', JStr ''amount''), (''column_position'', JInt 1)]]
   \<and> dataset_files orders_world ''/data'' ''orders'' = [''/data/orders/part-00000'']
   \<and> pd_open orders_world ''/data/orders/part-00000'' [JStr ''name'', JStr ''amount'', JStr ''id'']
       = Inr [[''a'', ''1'', ''100''], [''b'', ''2'', ''200'']]
   \<and> db_outcome orders_world = (\<lambda>n. None)
   \<and> fst (db_loader orders_world ''/data'' orders_catalog ''url'' ''orders'' 10000 state0) = Inr ()
   \<and> tables (snd (db_loader orders_world ''/data'' orders_catalog ''url'' ''orders'' 10000 state0))
         ''orders_test''
       = [[(JStr ''name'', ''a''), (JStr ''amount'', ''1''), (JStr ''id'', ''100'')],
          [(JStr ''name'', ''b''), (JStr ''amount'', ''2''), (JStr ''id'', ''200'')]]"
proof -
  have h1: "map_of orders_catalog ''orders'' =
     Some [[(''column_name'', JStr ''id''), (''column_position'', JInt 2)],
           [(''column_name'', JStr ''name''), (''column_position'', JInt 0)],
           [(''column_name'', JStr ''amount''), (''column_position'', JInt 1)]]"
    by (simp add: orders_catalog_def)
  have h8: "dataset_files orders_world ''/data'' ''orders'' = [''/data/orders/part-00000'']"
    by (simp add: dataset_files_def orders_world_def)
  have h9: "pd_open orders_world ''/data/orders/part-00000'' [JStr ''name'', JStr ''amount'', JStr ''id'']
       = Inr [[''a'', ''1'', ''100''], [''b'', ''2'', ''200'']]"
    by (simp add: orders_world_def orders_lines_def)
  have h10: "(0::int) < 10000"
    by simp
  have h11: "\<forall>n. db_outcome orders_world n = None"
    by (simp add: orders_world_def)
  have o: "db_outcome orders_world = (\<lambda>n. None)"
    by (simp add: orders_world_def)
  from load_round_trip [OF h1 _ _ _ _ _ _ h8 h9 h10 h11, of "''url''" state0]
  have "fst (db_loader orders_world ''/data'' orders_catalog ''url'' ''orders'' 10000 state0) = Inr ()
     \<and> tables (snd (db_loader orders_world ''/data'' orders_catalog ''url'' ''orders'' 10000 state0))
         = (tables state0)((''orders'' @ ''_test'') := tables state0 (''orders'' @ ''_test'') @
               [[(JStr ''name'', ''a''), (JStr ''amount'', ''1''), (JStr ''id'', ''100'')],
                [(JStr ''name'', ''b''), (JStr ''amount'', ''2''), (JStr ''id'', ''200'')]])"
    by simp
  with h1 h8 h9 o show ?thesis
    by (simp add: state0_def)
qed

theorem main_empty_selector_witness:
  "missing_variable orders_world = None
   \<and> schema_file orders_world (path_join (getenv orders_world ''SRC_BASE_DIR'') ''schemas.json'')
       = Inr orders_catalog
   \<and> map fst orders_catalog = [''orders'']
   \<and> fst (main orders_world (PyStr []) 10000 state0) = Inr ()
   \<and> tables (snd (main orders_world (PyStr []) 10000 state0)) ''orders_test'' = orders_rows
   \<and> tables (snd (main orders_world (PyStr []) 10000 state0)) ''_test'' = []"
proof -
  have h1: "missing_variable orders_world = None"
    by (simp add: missing_variable_def env_names_def orders_world_def)
  have e: "getenv orders_world ''SRC_BASE_DIR'' = ''/data''"
    by (simp add: getenv_def orders_world_def)
  have h2: "schema_file orders_world (path_join (getenv orders_world ''SRC_BASE_DIR'') ''schemas.json'')
       = Inr orders_catalog"
    unfolding e by (simp add: path_join_def orders_world_def)
  have k: "map fst orders_catalog = [''orders'']"
    by (simp add: orders_catalog_def)
  let ?url = "''postgresql://'' @ getenv orders_world ''DB_USER'' @ '':'' @ getenv orders_world ''DB_PASS''
               @ ''@'' @ getenv orders_world ''DB_HOST'' @ '':'' @ getenv orders_world ''DB_PORT''
               @ ''/'' @ getenv orders_world ''DB_NAME''"
  let ?st2 = "logger INFO (Loading_all [''orders''])
               (logger INFO (Schema_loaded (path_join ''/data'' ''schemas.json'')) state0)"
  from main_empty_selector [of orders_world 10000 state0 orders_catalog] h1 h2
  have "main orders_world (PyStr []) 10000 state0 =
          for_datasets orders_world (getenv orders_world ''SRC_BASE_DIR'') orders_catalog ?url
            10000 (map fst orders_catalog)
            (logger INFO (Loading_all (map fst orders_catalog))
               (logger INFO
                  (Schema_loaded (path_join (getenv orders_world ''SRC_BASE_DIR'') ''schemas.json'')) state0))"
    by blast
  then have m: "main orders_world (PyStr []) 10000 state0 =
          for_datasets orders_world ''/data'' orders_catalog ?url 10000 [''orders''] ?st2"
    by (simp only: e k)
  let ?r = "db_loader orders_world ''/data'' orders_catalog ?url ''orders'' 10000 ?st2"
  from orders_load [of ?url ?st2]
  have O1: "fst ?r = Inr ()"
    and O2: "tables (snd ?r) = (tables ?st2)(''orders_test'' := tables ?st2 ''orders_test'' @ orders_rows)"
    by blast+
  have fd: "for_datasets orders_world ''/data'' orders_catalog ?url 10000 [''orders''] ?st2
      = (Inr (), snd ?r)"
    using O1 by (cases ?r) simp
  have t: "tables ?st2 = (\<lambda>t. [])"
    by (simp add: state0_def)
  have r1: "fst (main orders_world (PyStr []) 10000 state0) = Inr ()"
    by (simp only: m fd fst_conv)
  have "tables (snd (main orders_world (PyStr []) 10000 state0))
      = (\<lambda>t. [])(''orders_test'' := [] @ orders_rows)"
    by (simp only: m fd snd_conv O2 t)
  then have r2: "tables (snd (main orders_world (PyStr []) 10000 state0)) ''orders_test'' = orders_rows"
    and r3: "tables (snd (main orders_world (PyStr []) 10000 state0)) ''_test'' = []"
    by simp_all
  from h1 h2 k r1 r2 r3 show ?thesis
    by blast
qed

section \<open>Appending to tables\<close>

lemma db_loader_keeps_rows:
  "\<exists>new. tables (snd (db_loader w src_base_dir schemas url ds_name chunksize st)) t = tables st t @ new"
proof (cases "dataset_files w src_base_dir ds_name = []")
  case True
  then have "tables (snd (db_loader w src_base_dir schemas url ds_name chunksize st)) = tables st"
    by (simp add: db_loader_def dataset_files_def Let_def)
  then show ?thesis
    by simp
next
  case False
  from db_loader_files(3) [OF refl False, of schemas url chunksize st] show ?thesis
    by (cases "t = ds_name @ ''_test''") simp_all
qed

lemma db_loader_all_written:
  assumes "\<forall>n. db_outcome w n = None"
    and "fst (db_loader w src_base_dir schemas url ds_name chunksize st) = Inr ()"
  shows "tables (snd (db_loader w src_base_dir schemas url ds_name chunksize st)) (ds_name @ ''_test'')
     = tables st (ds_name @ ''_test'')
       @ concat (map to_records
           (files_chunks w schemas ds_name chunksize (dataset_files w src_base_dir ds_name)))"
    and "fst (db_loader w src_base_dir schemas url ds_name chunksize st') = Inr ()"
proof -
  let ?fs = "dataset_files w src_base_dir ds_name"
  have ne: "?fs \<noteq> []"
  proof
    assume "?fs = []"
    then have "fst (db_loader w src_base_dir schemas url ds_name chunksize st)
        = Inl (Exn ValueError (''No files found for '' @ ds_name) None)"
      by (simp add: db_loader_def dataset_files_def Let_def)
    with assms(2) show False
      by simp
  qed
  from db_loader_files(1) [OF refl ne, of schemas url chunksize st] assms(2)
  have fr: "first_raised w schemas ds_name chunksize ?fs = None"
    by (cases "first_raised w schemas ds_name chunksize ?fs") simp_all
  then have rd: "readable w schemas ds_name chunksize ?fs"
    by (rule first_raised_readable)
  from db_loader_files(3) [OF refl ne, of schemas url chunksize st]
  show "tables (snd (db_loader w src_base_dir schemas url ds_name chunksize st)) (ds_name @ ''_test'')
     = tables st (ds_name @ ''_test'')
       @ concat (map to_records (files_chunks w schemas ds_name chunksize ?fs))"
    by (simp add: readable_attempted [OF rd] accepted_always [OF assms(1)])
  from db_loader_files(1) [OF refl ne, of schemas url chunksize st'] fr
  show "fst (db_loader w src_base_dir schemas url ds_name chunksize st') = Inr ()"
    by simp
qed

text \<open>
  C7: the Table Writer appends and is not idempotent. A write the database accepts leaves
  the destination table with its former rows followed by the rows of the chunk; writing
  the same chunk a second time appends the rows a second time. No write, accepted or
  refused, and no run of the Dataset Loader removes or changes a row that a table already
  had: every table afterwards is its former content followed by new rows. With a database
  that accepts every write, a load that returns normally followed by the same load over
  the unchanged source leaves the rows of the source in the table twice.
\<close>

theorem to_sql_appends:
  "(db_outcome w (db_calls st) = None \<longrightarrow>
      fst (to_sql w t df url st) = Inr True
      \<and> tables (snd (to_sql w t df url st)) = (tables st)(t := tables st t @ to_records df))
   \<and> (db_outcome w (db_calls st) = None \<and> db_outcome w (Suc (db_calls st)) = None \<longrightarrow>
      tables (snd (to_sql w t df url (snd (to_sql w t df url st)))) t
        = tables st t @ to_records df @ to_records df)
   \<and> (\<forall>t'. \<exists>new. tables (snd (to_sql w t df url st)) t' = tables st t' @ new)
   \<and> (\<forall>t'. \<exists>new.
         tables (snd (db_loader w src_base_dir schemas url ds_name chunksize st)) t' = tables st t' @ new)
   \<and> ((\<forall>n. db_outcome w n = None)
        \<and> fst (db_loader w src_base_dir schemas url ds_name chunksize st) = Inr () \<longrightarrow>
        (let loaded = concat (map to_records
                        (files_chunks w schemas ds_name chunksize (dataset_files w src_base_dir ds_name)));
             st1 = snd (db_loader w src_base_dir schemas url ds_name chunksize st);
             st2 = snd (db_loader w src_base_dir schemas url ds_name chunksize st1)
         in tables st1 (ds_name @ ''_test'') = tables st (ds_name @ ''_test'') @ loaded
          \<and> fst (db_loader w src_base_dir schemas url ds_name chunksize st1) = Inr ()
          \<and> tables st2 (ds_name @ ''_test'') = tables st (ds_name @ ''_test'') @ loaded @ loaded))"
proof (intro conjI impI allI)
  assume a: "db_outcome w (db_calls st) = None"
  show "fst (to_sql w t df url st) = Inr True"
    by (simp add: to_sql_ok [OF a])
  show "tables (snd (to_sql w t df url st)) = (tables st)(t := tables st t @ to_records df)"
    by (simp add: to_sql_ok [OF a])
next
  assume a: "db_outcome w (db_calls st) = None \<and> db_outcome w (Suc (db_calls st)) = None"
  let ?st1 = "st\<lparr>tables := (tables st)(t := tables st t @ to_records df), db_calls := Suc (db_calls st)\<rparr>"
  from a have 1: "to_sql w t df url st = (Inr True, ?st1)"
    by (simp add: to_sql_ok)
  from a have "db_outcome w (db_calls ?st1) = None"
    by simp
  from to_sql_ok [OF this, of t df url] 1
  show "tables (snd (to_sql w t df url (snd (to_sql w t df url st)))) t
        = tables st t @ to_records df @ to_records df"
    by simp
next
  fix t'
  show "\<exists>new. tables (snd (to_sql w t df url st)) t' = tables st t' @ new"
  proof (cases "db_outcome w (db_calls st)")
    case None
    from to_sql_ok [OF None, of t df url] show ?thesis
      by (cases "t' = t") simp_all
  next
    case (Some e)
    from to_sql_fail_state(2) [OF Some, of t df url] show ?thesis
      by simp
  qed
next
  fix t'
  show "\<exists>new. tables (snd (db_loader w src_base_dir schemas url ds_name chunksize st)) t' = tables st t' @ new"
    by (rule db_loader_keeps_rows)
next
  assume a: "(\<forall>n. db_outcome w n = None)
        \<and> fst (db_loader w src_base_dir schemas url ds_name chunksize st) = Inr ()"
  let ?loaded = "concat (map to_records
                        (files_chunks w schemas ds_name chunksize (dataset_files w src_base_dir ds_name)))"
  let ?st1 = "snd (db_loader w src_base_dir schemas url ds_name chunksize st)"
  let ?st2 = "snd (db_loader w src_base_dir schemas url ds_name chunksize ?st1)"
  from a have o: "\<forall>n. db_outcome w n = None"
    and r: "fst (db_loader w src_base_dir schemas url ds_name chunksize st) = Inr ()"
    by blast+
  have 1: "tables ?st1 (ds_name @ ''_test'') = tables st (ds_name @ ''_test'') @ ?loaded"
    by (rule db_loader_all_written(1) [OF o r])
  have 2: "fst (db_loader w src_base_dir schemas url ds_name chunksize ?st1) = Inr ()"
    by (rule db_loader_all_written(2) [OF o r])
  have "tables ?st2 (ds_name @ ''_test'') = tables ?st1 (ds_name @ ''_test'') @ ?loaded"
    by (rule db_loader_all_written(1) [OF o 2])
  with 1 have 3: "tables ?st2 (ds_name @ ''_test'') = tables st (ds_name @ ''_test'') @ ?loaded @ ?loaded"
    by simp
  from 1 2 3 show "let loaded = ?loaded; st1 = ?st1;
             st2 = snd (db_loader w src_base_dir schemas url ds_name chunksize st1)
         in tables st1 (ds_name @ ''_test'') = tables st (ds_name @ ''_test'') @ loaded
          \<and> fst (db_loader w src_base_dir schemas url ds_name chunksize st1) = Inr ()
          \<and> tables st2 (ds_name @ ''_test'') = tables st (ds_name @ ''_test'') @ loaded @ loaded"
    by (simp only: Let_def simp_thms)
qed

theorem to_sql_appends_witness:
  "db_outcome orders_world = (\<lambda>n. None)
   \<and> fst (db_loader orders_world ''/data'' orders_catalog ''url'' ''orders'' 10000 state0) = Inr ()
   \<and> tables (snd (db_loader orders_world ''/data'' orders_catalog ''url'' ''orders'' 10000
         (snd (db_loader orders_world ''/data'' orders_catalog ''url'' ''orders'' 10000 state0))))
       ''orders_test''
     = orders_rows @ orders_rows
   \<and> tables (snd (to_sql orders_world ''orders_test''
                     \<lparr>columns = [JStr ''name'', JStr ''amount'', JStr ''id''], rows = orders_lines\<rparr> ''url''
                (snd (to_sql orders_world ''orders_test''
                     \<lparr>columns = [JStr ''name'', JStr ''amount'', JStr ''id''], rows = orders_lines\<rparr> ''url''
                     state0)))) ''orders_test''
     = orders_rows @ orders_rows"
proof -
  let ?df = "\<lparr>columns = [JStr ''name'', JStr ''amount'', JStr ''id''], rows = orders_lines\<rparr>"
  have o: "db_outcome orders_world = (\<lambda>n. None)"
    by (simp add: orders_world_def)
  then have h: "\<forall>n. db_outcome orders_world n = None"
    by simp
  from orders_load [of "''url''" state0]
  have r: "fst (db_loader orders_world ''/data'' orders_catalog ''url'' ''orders'' 10000 state0) = Inr ()"
    and c: "files_chunks orders_world orders_catalog ''orders'' 10000
         (dataset_files orders_world ''/data'' ''orders'') = [?df]"
    by blast+
  have rec: "to_records ?df = orders_rows"
    by (simp add: to_records_def orders_rows_def orders_lines_def)
  have t0: "tables state0 ''orders_test'' = []"
    by (simp add: state0_def)
  note T = to_sql_appends [of orders_world state0 "''orders_test''" ?df "''url''" "''/data''"
      orders_catalog "''orders''" 10000]
  from T h r have "tables (snd (db_loader orders_world ''/data'' orders_catalog ''url'' ''orders'' 10000
         (snd (db_loader orders_world ''/data'' orders_catalog ''url'' ''orders'' 10000 state0))))
       (''orders'' @ ''_test'')
     = tables state0 (''orders'' @ ''_test'')
       @ concat (map to_records (files_chunks orders_world orders_catalog ''orders'' 10000
           (dataset_files orders_world ''/data'' ''orders'')))
       @ concat (map to_records (files_chunks orders_world orders_catalog ''orders'' 10000
           (dataset_files orders_world ''/data'' ''orders'')))"
    by (simp only: Let_def) blast
  then have 1: "tables (snd (db_loader orders_world ''/data'' orders_catalog ''url'' ''orders'' 10000
         (snd (db_loader orders_world ''/data'' orders_catalog ''url'' ''orders'' 10000 state0))))
       ''orders_test'' = orders_rows @ orders_rows"
    by (simp add: c rec t0)
  from T h have "tables (snd (to_sql orders_world ''orders_test'' ?df ''url''
                (snd (to_sql orders_world ''orders_test'' ?df ''url'' state0)))) ''orders_test''
     = tables state0 ''orders_test'' @ to_records ?df @ to_records ?df"
    by blast
  then have 2: "tables (snd (to_sql orders_world ''orders_test'' ?df ''url''
                (snd (to_sql orders_world ''orders_test'' ?df ''url'' state0)))) ''orders_test''
     = orders_rows @ orders_rows"
    by (simp only: rec t0 append_Nil)
  from o r 1 2 show ?thesis
    by blast
qed

end
